theory Spec2Isabelle
  imports Main "HOL-Library.Word" "HOL-Library.Char_ord" "HOL-Library.List_Lexorder"
    "HOL-Library.AList" "HOL-Library.Multiset"
begin

section \<open>Go strings\<close>

text \<open>
  A Go string is a sequence of bytes; \<open>string\<close> (a \<open>char list\<close>) is used for it, and
  \<open>len\<close> is \<open>length\<close>. The functions of package \<open>strings\<close> that the operator calls
  are written out here.
\<close>

definition HasSuffix :: "string \<Rightarrow> string \<Rightarrow> bool" where
  "HasSuffix s suffix =
     (length suffix \<le> length s \<and> drop (length s - length suffix) s = suffix)"

definition HasPrefix :: "string \<Rightarrow> string \<Rightarrow> bool" where
  "HasPrefix s prefix = (length prefix \<le> length s \<and> take (length prefix) s = prefix)"

text \<open>\<open>strings.Split\<close> with a separator of one byte, and \<open>strings.Join\<close>.\<close>

fun splitFrom :: "string \<Rightarrow> char \<Rightarrow> string \<Rightarrow> string list" where
  "splitFrom cur sep [] = [cur]"
| "splitFrom cur sep (c # cs) =
     (if c = sep then cur # splitFrom [] sep cs else splitFrom (cur @ [c]) sep cs)"

definition Split :: "string \<Rightarrow> char \<Rightarrow> string list" where
  "Split s sep = splitFrom [] sep s"

fun Join :: "string list \<Rightarrow> string \<Rightarrow> string" where
  "Join [] sep = []"
| "Join [x] sep = x"
| "Join (x # y # ys) sep = x @ sep @ Join (y # ys) sep"

section \<open>internal/util: ConvertIntervalToDuration and AppendAPIEndpoint\<close>

text \<open>
  \<open>int\<close> and \<open>time.Duration\<close> (an \<open>int64\<close> count of nanoseconds) are 64-bit words on the
  platforms the operator is built for; \<open>*\<close> wraps, \<open>sint\<close> reads the signed value.
\<close>

type_synonym go_int = "64 word"
type_synonym Duration = "64 word"

definition Second :: Duration where "Second = 1000000000"
definition Minute :: Duration where "Minute = 60 * Second"
definition Hour :: Duration where "Hour = 60 * Minute"

datatype conv_error =
    InvalidFormat          \<comment> \<open>\<open>invalid format\<close>\<close>
  | AtoiSyntax             \<comment> \<open>\<open>strconv.Atoi\<close>: invalid syntax\<close>
  | AtoiRange              \<comment> \<open>\<open>strconv.Atoi\<close>: value out of range\<close>
  | AtLeastFiveSeconds     \<comment> \<open>\<open>resync interval must be at least 5 seconds\<close>\<close>
  | InvalidTimeUnit        \<comment> \<open>\<open>invalid time unit\<close>\<close>

definition isDigit :: "char \<Rightarrow> bool" where
  "isDigit c = (48 \<le> (of_char c :: nat) \<and> (of_char c :: nat) \<le> 57)"

fun digitsValue :: "int \<Rightarrow> string \<Rightarrow> int" where
  "digitsValue n [] = n"
| "digitsValue n (ch # s) = digitsValue (n * 10 + (int (of_char ch) - 48)) s"

definition stripSign :: "string \<Rightarrow> string" where
  "stripSign s = (if s \<noteq> [] \<and> (hd s = CHR ''-'' \<or> hd s = CHR ''+'') then tl s else s)"

definition isSignedDecimal :: "string \<Rightarrow> bool" where
  "isSignedDecimal s = (stripSign s \<noteq> [] \<and> list_all isDigit (stripSign s))"

definition decimalValue :: "string \<Rightarrow> int" where
  "decimalValue s =
     (if s \<noteq> [] \<and> hd s = CHR ''-'' then - digitsValue 0 (stripSign s)
      else digitsValue 0 (stripSign s))"

text \<open>
  \<open>strconv.Atoi\<close> of the Go library: an optional sign and one or more decimal digits,
  nothing else; a value outside the range of \<open>int\<close> is a range error.
\<close>

definition Atoi :: "string \<Rightarrow> conv_error + go_int" where
  "Atoi s =
     (if \<not> isSignedDecimal s then Inl AtoiSyntax
      else if decimalValue s < - (2 ^ 63) \<or> 2 ^ 63 \<le> decimalValue s then Inl AtoiRange
      else Inr (word_of_int (decimalValue s)))"

text \<open>
  The argument is a \<open>*string\<close>: \<open>None\<close> is the nil pointer. \<open>unit\<close> is the last byte,
  \<open>numberPart\<close> everything before it.
\<close>

definition ConvertIntervalToDuration :: "string option \<Rightarrow> conv_error + Duration" where
  "ConvertIntervalToDuration resyncInterval =
     (case resyncInterval of
        None \<Rightarrow> Inr 0
      | Some s \<Rightarrow>
          if s = [] then Inr 0
          else if length s < 2 then Inl InvalidFormat
          else
            let unit = drop (length s - 1) s;
                numberPart = take (length s - 1) s
            in case Atoi numberPart of
                 Inl err \<Rightarrow> Inl err
               | Inr number \<Rightarrow>
                   if unit = ''s'' then
                     (if number <s 5 then Inl AtLeastFiveSeconds else Inr (number * Second))
                   else if unit = ''m'' then Inr (number * Minute)
                   else if unit = ''h'' then Inr (number * Hour)
                   else if unit = ''d'' then Inr (number * 24 * Hour)
                   else if unit = ''w'' then Inr (number * 7 * 24 * Hour)
                   else Inl InvalidTimeUnit)"

text \<open>The length of a unit in nanoseconds, as an unbounded integer.\<close>

definition unitNanos :: "char \<Rightarrow> int" where
  "unitNanos u =
     (if u = CHR ''s'' then 1000000000
      else if u = CHR ''m'' then 60 * 1000000000
      else if u = CHR ''h'' then 3600 * 1000000000
      else if u = CHR ''d'' then 86400 * 1000000000
      else if u = CHR ''w'' then 604800 * 1000000000
      else 0)"

text \<open>
  \<open>address[len(address)-1]\<close> on the empty string is an index out of range: a run-time
  panic, which is the \<open>Inl\<close> branch.
\<close>

datatype go_panic = IndexOutOfRange

definition AppendAPIEndpoint :: "string \<Rightarrow> go_panic + string" where
  "AppendAPIEndpoint address =
     (if HasSuffix address ''/api'' then Inr address
      else if length address = 0 then Inl IndexOutOfRange
      else if address ! (length address - 1) = CHR ''/'' then Inr (address @ ''api'')
      else Inr (address @ ''/api''))"

section \<open>internal/util/sse: the event parser\<close>

definition LF :: char where "LF = CHR 0x0A"
definition CR :: char where "CR = CHR 0x0D"

text \<open>
  \<open>strings.TrimSpace\<close> removes leading and trailing white space as \<open>unicode.IsSpace\<close>
  defines it: the ASCII bytes tab, line feed, vertical tab, form feed, carriage return
  and space, and the code points U+0085, U+00A0, U+1680, U+2000 to U+200A, U+2028,
  U+2029, U+202F, U+205F and U+3000, which appear in a string as their UTF-8 encodings
  of two or three bytes.
\<close>

definition asciiSpace :: "char \<Rightarrow> bool" where
  "asciiSpace c = ((9 \<le> (of_char c :: nat) \<and> (of_char c :: nat) \<le> 13) \<or> c = CHR '' '')"

definition utf8Space2 :: "char \<Rightarrow> char \<Rightarrow> bool" where
  "utf8Space2 a b = (a = CHR 0xC2 \<and> (b = CHR 0x85 \<or> b = CHR 0xA0))"

definition utf8Space3 :: "char \<Rightarrow> char \<Rightarrow> char \<Rightarrow> bool" where
  "utf8Space3 a b c =
     ((a = CHR 0xE1 \<and> b = CHR 0x9A \<and> c = CHR 0x80)
      \<or> (a = CHR 0xE2 \<and> b = CHR 0x80
          \<and> ((128 \<le> (of_char c :: nat) \<and> (of_char c :: nat) \<le> 138)
              \<or> c = CHR 0xA8 \<or> c = CHR 0xA9 \<or> c = CHR 0xAF))
      \<or> (a = CHR 0xE2 \<and> b = CHR 0x81 \<and> c = CHR 0x9F)
      \<or> (a = CHR 0xE3 \<and> b = CHR 0x80 \<and> c = CHR 0x80))"

fun TrimLeftSpace :: "string \<Rightarrow> string" where
  "TrimLeftSpace (a # b # c # s) =
     (if asciiSpace a then TrimLeftSpace (b # c # s)
      else if utf8Space2 a b then TrimLeftSpace (c # s)
      else if utf8Space3 a b c then TrimLeftSpace s
      else a # b # c # s)"
| "TrimLeftSpace [a, b] =
     (if asciiSpace a then TrimLeftSpace [b]
      else if utf8Space2 a b then []
      else [a, b])"
| "TrimLeftSpace [a] = (if asciiSpace a then [] else [a])"
| "TrimLeftSpace [] = []"

text \<open>The same from the end, on the reversed string: the last byte comes first.\<close>

fun TrimLeftSpaceRev :: "string \<Rightarrow> string" where
  "TrimLeftSpaceRev (c # b # a # s) =
     (if asciiSpace c then TrimLeftSpaceRev (b # a # s)
      else if utf8Space2 b c then TrimLeftSpaceRev (a # s)
      else if utf8Space3 a b c then TrimLeftSpaceRev s
      else c # b # a # s)"
| "TrimLeftSpaceRev [c, b] =
     (if asciiSpace c then TrimLeftSpaceRev [b]
      else if utf8Space2 b c then []
      else [c, b])"
| "TrimLeftSpaceRev [c] = (if asciiSpace c then [] else [c])"
| "TrimLeftSpaceRev [] = []"

definition TrimSpace :: "string \<Rightarrow> string" where
  "TrimSpace s = rev (TrimLeftSpaceRev (rev (TrimLeftSpace s)))"

text \<open>\<open>strings.IndexByte\<close>: the index of the first occurrence, or \<open>-1\<close>.\<close>

fun IndexByte :: "string \<Rightarrow> char \<Rightarrow> int" where
  "IndexByte [] c = - 1"
| "IndexByte (x # xs) c =
     (if x = c then 0
      else (let i = IndexByte xs c in if i = - 1 then - 1 else i + 1))"

record Event =
  ID :: string
  Event :: string
  Data :: string
  Retry :: int

text \<open>\<open>Event{}\<close>, the zero value.\<close>

definition zeroEvent :: Event where
  "zeroEvent = \<lparr>ID = [], Event = [], Data = [], Retry = 0\<rparr>"

text \<open>
  \<open>parseLine\<close> writes through two pointers: the event under construction and the
  \<open>strings.Builder\<close> that collects the data lines. The builder is its content, a
  string; both are returned updated.
\<close>

definition parseLine :: "string \<Rightarrow> Event \<Rightarrow> string \<Rightarrow> Event \<times> string" where
  "parseLine line event dataBuilder =
     (let colonIndex = IndexByte line (CHR '':'') in
      if colonIndex = - 1 then (event, dataBuilder)
      else
        let field = take (nat colonIndex) line;
            value0 = drop (nat (colonIndex + 1)) line;
            value = (if length value0 > 0 \<and> value0 ! 0 = CHR '' '' then drop 1 value0
                     else value0)
        in if field = ''data'' then
             (event, (if length dataBuilder > 0 then dataBuilder @ [LF] else dataBuilder) @ value)
           else if field = ''event'' then (event\<lparr>Event := value\<rparr>, dataBuilder)
           else if field = ''id'' then (event\<lparr>ID := value\<rparr>, dataBuilder)
           else (event, dataBuilder))"

definition isPingEvent :: "Event \<Rightarrow> bool" where
  "isPingEvent event =
     (if Event event = ''ping'' then True
      else if Event event = [] \<and> TrimSpace (Data event) = ''1'' then True
      else False)"

text \<open>
  \<open>bufio.Scanner\<close> with its default split function \<open>ScanLines\<close>: the tokens are the
  lines of the body without their line feed and without one trailing carriage return;
  a last line that has no line feed is a token when it is not empty. (The scanner's
  limit of 64 KiB on a token is not part of the model: lines are taken to be shorter.)
\<close>

definition dropCR :: "string \<Rightarrow> string" where
  "dropCR buf = (if length buf > 0 \<and> buf ! (length buf - 1) = CR then take (length buf - 1) buf
                 else buf)"

fun scanFrom :: "string \<Rightarrow> string \<Rightarrow> string list" where
  "scanFrom cur [] = (if cur = [] then [] else [dropCR cur])"
| "scanFrom cur (c # cs) =
     (if c = LF then dropCR cur # scanFrom [] cs else scanFrom (cur @ [c]) cs)"

definition ScanLines :: "string \<Rightarrow> string list" where
  "ScanLines body = scanFrom [] body"

text \<open>
  What the reader does that others can see: it stores a new \<open>lastPingAt\<close> or it calls
  \<open>onEvent\<close> (through \<open>safeCallOnEvent\<close>).
\<close>

datatype stream_action = UpdateLastPing | CallOnEvent Event

text \<open>
  The scanning loop of \<open>processStream\<close>. \<open>ctxDone i\<close> says whether the connection's
  context is done when the \<open>i\<close>-th line is looked at; the loop returns then.
\<close>

fun processLines ::
  "(nat \<Rightarrow> bool) \<Rightarrow> nat \<Rightarrow> Event \<Rightarrow> string \<Rightarrow> string list \<Rightarrow> stream_action list" where
  "processLines ctxDone i currentEvent dataBuilder [] = []"
| "processLines ctxDone i currentEvent dataBuilder (line # rest) =
     (if ctxDone i then []
      else if length line = 0 then
        (if Data currentEvent \<noteq> [] \<or> Event currentEvent \<noteq> [] then
           (let finalEvent = (if length dataBuilder > 0 then currentEvent\<lparr>Data := dataBuilder\<rparr>
                              else currentEvent);
                resetBuilder = (if length dataBuilder > 0 then [] else dataBuilder)
            in (if isPingEvent finalEvent then UpdateLastPing else CallOnEvent finalEvent)
               # processLines ctxDone (Suc i) zeroEvent resetBuilder rest)
         else processLines ctxDone (Suc i) currentEvent dataBuilder rest)
      else
        (case parseLine line currentEvent dataBuilder of
           (event, builder) \<Rightarrow> processLines ctxDone (Suc i) event builder rest))"

definition processStream :: "(nat \<Rightarrow> bool) \<Rightarrow> string \<Rightarrow> stream_action list" where
  "processStream ctxDone body = processLines ctxDone 0 zeroEvent [] (ScanLines body)"

definition ctxAlive :: "nat \<Rightarrow> bool" where
  "ctxAlive i = False"

text \<open>
  The wire format as the specification describes it, for stating the round trip: an
  event is written as its \<open>id\<close> field and its \<open>event\<close> field when they are not empty,
  one \<open>data\<close> field for every line of its data, and an empty line; every field is the
  name, a colon, a space and the value, ended by a line feed.
\<close>

definition spec_field :: "string \<Rightarrow> string \<Rightarrow> string" where
  "spec_field name val = name @ '': '' @ val @ [LF]"

definition spec_encodeEvent :: "Event \<Rightarrow> string" where
  "spec_encodeEvent e =
     (if ID e = [] then [] else spec_field ''id'' (ID e))
     @ (if Event e = [] then [] else spec_field ''event'' (Event e))
     @ (if Data e = [] then [] else concat (map (spec_field ''data'') (Split (Data e) LF)))
     @ [LF]"

definition spec_encodeEvents :: "Event list \<Rightarrow> string" where
  "spec_encodeEvents events = concat (map spec_encodeEvent events)"

text \<open>
  Events whose encoding the reader can be expected to return: the event has a name,
  the name and the id are single lines, no line ends in a carriage return (none
  contains one), the data does not begin with an empty line, and \<open>Retry\<close>, which the
  reader does not decode, is zero.
\<close>

definition wfLine :: "string \<Rightarrow> bool" where
  "wfLine v = (LF \<notin> set v \<and> CR \<notin> set v)"

definition wfNamed :: "Event \<Rightarrow> bool" where
  "wfNamed e =
     (Event e \<noteq> [] \<and> wfLine (Event e) \<and> wfLine (ID e) \<and> CR \<notin> set (Data e)
      \<and> (Data e \<noteq> [] \<longrightarrow> hd (Data e) \<noteq> LF) \<and> Retry e = 0)"

text \<open>What the reader owes for one event: a ping is consumed, any other is dispatched.\<close>

definition spec_delivery :: "Event \<Rightarrow> stream_action" where
  "spec_delivery e = (if isPingEvent e then UpdateLastPing else CallOnEvent e)"

section \<open>internal/util/sse: the connection registry\<close>

fun Contains :: "string \<Rightarrow> string \<Rightarrow> bool" where
  "Contains [] substr = (substr = [])"
| "Contains (c # s) substr = (HasPrefix (c # s) substr \<or> Contains s substr)"

text \<open>
  \<open>strings.ToLower\<close> on the ASCII letters; every other byte is kept (the messages
  compared below are ASCII).
\<close>

definition lowerByte :: "char \<Rightarrow> char" where
  "lowerByte c =
     (if 65 \<le> (of_char c :: nat) \<and> (of_char c :: nat) \<le> 90
      then char_of ((of_char c :: nat) + 32) else c)"

definition ToLower :: "string \<Rightarrow> string" where
  "ToLower s = map lowerByte s"

text \<open>
  An error is its message; \<open>None\<close> is \<open>nil\<close>. \<open>fmt.Errorf\<close> with \<open>%w\<close> puts the message of
  the wrapped error behind the prefix.
\<close>

type_synonym go_error = "string option"

definition isPermanentError :: "go_error \<Rightarrow> bool" where
  "isPermanentError err =
     (case err of
        None \<Rightarrow> False
      | Some msg \<Rightarrow>
          (let errMsg = ToLower msg in
           if Contains errMsg ''not available on your current plan''
              \<or> (Contains errMsg ''plan'' \<and> Contains errMsg ''not available'')
           then True else False))"

record SubscriptionParams =
  ProjectID :: string
  EnvSlug :: string
  SecretsPath :: string

definition Equals :: "SubscriptionParams \<Rightarrow> SubscriptionParams \<Rightarrow> bool" where
  "Equals p other =
     (ProjectID p = ProjectID other \<and> EnvSlug p = EnvSlug other
      \<and> SecretsPath p = SecretsPath other)"

text \<open>
  A \<open>ConnectionMeta\<close> is reached through pointers, so the metas live in a store and a
  pointer is an index into it. Of the context only whether \<open>cancel\<close> has been called
  matters, of the body whether it has been closed, and of the reader goroutine that
  \<open>createConnectionLocked\<close> starts whether it has returned after a read error.
\<close>

record ConnectionMeta =
  params :: SubscriptionParams
  cancelCalled :: bool
  bodyClosed :: bool
  readerReturned :: bool

record ReconnectConfig =
  MaxRetries :: int
  InitialBackoff :: Duration
  MaxBackoff :: Duration
  BackoffFactor :: int
    \<comment> \<open>a \<open>float64\<close> in the source; the product \<open>float64(backoff) * 2.0\<close> is exact for
        every backoff the default configuration reaches\<close>

definition DefaultReconnectConfig :: ReconnectConfig where
  "DefaultReconnectConfig =
     \<lparr>MaxRetries = 5, InitialBackoff = Second, MaxBackoff = 30 * Second, BackoffFactor = 2\<rparr>"

record ConnectionRegistry =
  conn :: "nat option"                     \<comment> \<open>\<open>r.conn\<close>, \<open>None\<close> for nil\<close>
  store :: "ConnectionMeta list"           \<comment> \<open>every meta allocated so far\<close>
  ctxCancelled :: bool                     \<comment> \<open>\<open>r.cancel()\<close> has been called\<close>
  reconnectConfig :: ReconnectConfig
  requestFnStored :: bool                  \<comment> \<open>\<open>r.requestFn\<close> is not nil\<close>
  reconnectLoops :: "SubscriptionParams list"
    \<comment> \<open>the \<open>reconnectLoop\<close> goroutines started and not yet returned, each with its
        \<open>params\<close> argument\<close>

definition NewConnectionRegistry :: ConnectionRegistry where
  "NewConnectionRegistry =
     \<lparr>conn = None, store = [], ctxCancelled = False,
      reconnectConfig = DefaultReconnectConfig, requestFnStored = False,
      reconnectLoops = []\<rparr>"

text \<open>The connection's context is a child of the registry's.\<close>

definition connCtxDone :: "ConnectionRegistry \<Rightarrow> nat \<Rightarrow> bool" where
  "connCtxDone r i = (cancelCalled (store r ! i) \<or> ctxCancelled r)"

text \<open>
  \<open>requestFn\<close> talks to the upstream; what a call of it returns is an input of the
  model: \<open>None\<close> for a response, \<open>Some msg\<close> for an error.
\<close>

definition createConnectionLocked ::
  "ConnectionRegistry \<Rightarrow> SubscriptionParams \<Rightarrow> go_error \<Rightarrow> go_error \<times> ConnectionRegistry" where
  "createConnectionLocked r ps requestResult =
     (if ctxCancelled r then (Some ''registry is closed'', r)
      else case requestResult of
             Some msg \<Rightarrow> (Some (''failed to establish SSE connection: '' @ msg), r)
           | None \<Rightarrow>
               (None,
                r\<lparr>store := store r @
                     [\<lparr>params = ps, cancelCalled = False, bodyClosed = False,
                       readerReturned = False\<rparr>],
                  conn := Some (length (store r))\<rparr>))"

definition closeConnectionLocked :: "ConnectionRegistry \<Rightarrow> ConnectionRegistry" where
  "closeConnectionLocked r =
     (case conn r of
        None \<Rightarrow> r
      | Some i \<Rightarrow>
          r\<lparr>store := (store r)[i := (store r ! i)\<lparr>bodyClosed := True, cancelCalled := True\<rparr>],
            conn := None\<rparr>)"

definition SubscribeWithParams ::
  "ConnectionRegistry \<Rightarrow> SubscriptionParams \<Rightarrow> go_error \<Rightarrow> go_error \<times> ConnectionRegistry" where
  "SubscribeWithParams r ps requestResult =
     (case conn r of
        None \<Rightarrow> createConnectionLocked (r\<lparr>requestFnStored := True\<rparr>) ps requestResult
      | Some i \<Rightarrow>
          if Equals (params (store r ! i)) ps \<and> \<not> connCtxDone r i then (None, r)
          else createConnectionLocked
                 ((closeConnectionLocked r)\<lparr>requestFnStored := True\<rparr>) ps requestResult)"

definition Close :: "ConnectionRegistry \<Rightarrow> ConnectionRegistry" where
  "Close r = (closeConnectionLocked r)\<lparr>ctxCancelled := True\<rparr>"

definition zeroParams :: SubscriptionParams where
  "zeroParams = \<lparr>ProjectID = [], EnvSlug = [], SecretsPath = []\<rparr>"

definition triggerReconnect :: "ConnectionRegistry \<Rightarrow> ConnectionRegistry" where
  "triggerReconnect r =
     (if ctxCancelled r then r
      else
        let ps = (case conn r of None \<Rightarrow> zeroParams | Some i \<Rightarrow> params (store r ! i))
        in if \<not> requestFnStored r then r
           else r\<lparr>reconnectLoops := reconnectLoops r @ [ps]\<rparr>)"

text \<open>
  The end of \<open>processStream\<close> for the reader of meta \<open>i\<close>, when the scanner has
  stopped and \<open>scanner.Err()\<close> is \<open>err\<close>: nothing happens if there is no error (the
  body ended), if the context is done, or if the message says \<open>closed\<close> or \<open>eof\<close>;
  otherwise \<open>onError\<close> is called and a transient error starts a reconnect loop.
\<close>

definition readerStops :: "ConnectionRegistry \<Rightarrow> nat \<Rightarrow> go_error \<Rightarrow> ConnectionRegistry" where
  "readerStops r i err =
     (let r1 = r\<lparr>store := (store r)[i := (store r ! i)\<lparr>readerReturned := True\<rparr>]\<rparr> in
      case err of
        None \<Rightarrow> r1
      | Some msg \<Rightarrow>
          if connCtxDone r i then r1
          else if Contains (ToLower msg) ''closed'' \<or> Contains (ToLower msg) ''eof'' then r1
          else if \<not> isPermanentError err then triggerReconnect r1
          else r1)"

text \<open>
  \<open>checkConnectionHealth\<close> on a connection whose last ping is older than the timeout:
  the connection is closed and a reconnect loop is started with its params.
\<close>

definition checkConnectionHealthStale :: "ConnectionRegistry \<Rightarrow> ConnectionRegistry" where
  "checkConnectionHealthStale r =
     (if ctxCancelled r then r
      else case conn r of
             None \<Rightarrow> r
           | Some i \<Rightarrow>
               let ps = params (store r ! i);
                   r1 = closeConnectionLocked r
               in if requestFnStored r then r1\<lparr>reconnectLoops := reconnectLoops r1 @ [ps]\<rparr>
                  else r1)"

text \<open>
  One attempt of the reconnect loop that is \<open>k\<close>-th in the list of running loops (its
  wait is over): it takes the lock and calls \<open>createConnectionLocked\<close>; the loop returns
  on success and on a permanent error, and stays for another attempt otherwise.
\<close>

definition reconnectAttempt :: "ConnectionRegistry \<Rightarrow> nat \<Rightarrow> go_error \<Rightarrow> ConnectionRegistry" where
  "reconnectAttempt r k requestResult =
     (if length (reconnectLoops r) \<le> k then r
      else if ctxCancelled r
        then r\<lparr>reconnectLoops := take k (reconnectLoops r) @ drop (Suc k) (reconnectLoops r)\<rparr>
      else case createConnectionLocked r (reconnectLoops r ! k) requestResult of
             (err, r1) \<Rightarrow>
               if err = None \<or> isPermanentError err
               then r1\<lparr>reconnectLoops :=
                         take k (reconnectLoops r) @ drop (Suc k) (reconnectLoops r)\<rparr>
               else r1)"

text \<open>
  The registry is driven by the calls of its user and by its own goroutines; every one
  of them works on the \<open>conn\<close> slot under the mutex, so a run is a sequence of these
  steps.
\<close>

datatype registry_step =
    Subscribe SubscriptionParams go_error
  | ReaderStops nat go_error
  | HealthCheckStale
  | ReconnectAttempt nat go_error

fun step :: "ConnectionRegistry \<Rightarrow> registry_step \<Rightarrow> ConnectionRegistry" where
  "step r (Subscribe ps requestResult) = snd (SubscribeWithParams r ps requestResult)"
| "step r (ReaderStops i err) = (if i < length (store r) then readerStops r i err else r)"
| "step r HealthCheckStale = checkConnectionHealthStale r"
| "step r (ReconnectAttempt k requestResult) = reconnectAttempt r k requestResult"

definition run :: "registry_step list \<Rightarrow> ConnectionRegistry" where
  "run steps = foldl step NewConnectionRegistry steps"

text \<open>
  A meta is live while its body is open, its context is not done and its reader has
  not returned: its reader is then still reading events from the upstream.
\<close>

definition live :: "ConnectionRegistry \<Rightarrow> nat \<Rightarrow> bool" where
  "live r i =
     (\<not> bodyClosed (store r ! i) \<and> \<not> connCtxDone r i \<and> \<not> readerReturned (store r ! i))"

definition liveMetas :: "ConnectionRegistry \<Rightarrow> nat list" where
  "liveMetas r = filter (live r) [0..<length (store r)]"

subsection \<open>The reconnect loop\<close>

text \<open>Decimal digits of a number, for the \<open>%d\<close> of the error message.\<close>

fun Itoa :: "nat \<Rightarrow> string" where
  "Itoa n =
     (if n < 10 then [char_of (48 + n)]
      else Itoa (n div 10) @ [char_of (48 + n mod 10)])"

text \<open>
  What a run of \<open>reconnectLoop\<close> does that can be observed: it sleeps until the timer
  of \<open>time.After\<close> fires, it calls \<open>requestFn\<close>, it calls \<open>onError\<close> and \<open>onReconnect\<close>.
\<close>

datatype loop_action =
    Sleep Duration
  | CallRequestFn
  | CallOnError string
  | CallOnReconnect

text \<open>
  The environment of the \<open>attempt\<close>-th iteration: whether \<open>Close\<close> has been called on the
  registry by the time its \<open>select\<close> is decided, and what \<open>requestFn\<close> returns.
\<close>

record loop_env =
  closeCalled :: bool
  requestResult :: go_error

definition minDuration :: "Duration \<Rightarrow> Duration \<Rightarrow> Duration" where
  "minDuration a b = (if b <s a then b else a)"

fun reconnectIter ::
  "SubscriptionParams \<Rightarrow> (nat \<Rightarrow> loop_env) \<Rightarrow> nat \<Rightarrow> nat \<Rightarrow> Duration \<Rightarrow> ConnectionRegistry
   \<Rightarrow> loop_action list \<times> ConnectionRegistry" where
  "reconnectIter ps env 0 attempt backoff r = ([CallOnReconnect], r)"
| "reconnectIter ps env (Suc left) attempt backoff r =
     (let r1 = (if closeCalled (env attempt) then Close r else r) in
      if ctxCancelled r1 then ([], r1)
      else
        case createConnectionLocked r1 ps (requestResult (env attempt)) of
          (None, r2) \<Rightarrow> ([Sleep backoff, CallRequestFn], r2)
        | (Some msg, r2) \<Rightarrow>
            if isPermanentError (Some msg) then
              ([Sleep backoff, CallRequestFn,
                CallOnError (''permanent error, stopping reconnection: '' @ msg)], r2)
            else
              (case reconnectIter ps env left (Suc attempt)
                      (minDuration (backoff * word_of_int (BackoffFactor (reconnectConfig r)))
                         (MaxBackoff (reconnectConfig r))) r2 of
                 (actions, r3) \<Rightarrow>
                   ([Sleep backoff, CallRequestFn,
                     CallOnError (''reconnect attempt '' @ Itoa (attempt + 1)
                                   @ '' failed: '' @ msg)] @ actions, r3)))"

definition reconnectLoop ::
  "ConnectionRegistry \<Rightarrow> SubscriptionParams \<Rightarrow> (nat \<Rightarrow> loop_env)
   \<Rightarrow> loop_action list \<times> ConnectionRegistry" where
  "reconnectLoop r ps env =
     reconnectIter ps env (nat (MaxRetries (reconnectConfig r))) 0
       (InitialBackoff (reconnectConfig r)) r"

text \<open>
  The invariant that \<open>SubscribeWithParams\<close> keeps: no meta other than the one in the
  \<open>conn\<close> slot is live, and the slot points into the store.
\<close>

definition slotOnly :: "ConnectionRegistry \<Rightarrow> bool" where
  "slotOnly r = ((\<forall>i<length (store r). live r i \<longrightarrow> conn r = Some i)
                 \<and> (\<forall>i. conn r = Some i \<longrightarrow> i < length (store r)))"

text \<open>Environments of the reconnect loop used as examples below.\<close>

definition upstreamUnavailable :: "nat \<Rightarrow> loop_env" where
  "upstreamUnavailable attempt =
     \<lparr>closeCalled = False, requestResult = Some ''unexpected status 503''\<rparr>"

definition upstreamAccepts :: "nat \<Rightarrow> loop_env" where
  "upstreamAccepts attempt = \<lparr>closeCalled = False, requestResult = None\<rparr>"

definition planNotSupported :: "nat \<Rightarrow> loop_env" where
  "planNotSupported attempt =
     \<lparr>closeCalled = False,
      requestResult = Some ''event subscriptions are not available on your current plan''\<rparr>"

definition closedDuringThirdWait :: "nat \<Rightarrow> loop_env" where
  "closedDuringThirdWait attempt =
     \<lparr>closeCalled = (2 \<le> attempt), requestResult = Some ''unexpected status 503''\<rparr>"

section \<open>The managed-object writer\<close>

text \<open>
  A Go \<open>map[string]string\<close> is an association list with distinct keys; the order of
  the list stands for the order in which \<open>range\<close> visits the entries, which Go leaves
  open. \<open>m[k]\<close> is \<open>lookup\<close> (the empty string for a missing key) and \<open>m[k] = v\<close> is
  \<open>AList.update\<close>. A \<open>map[string]bool\<close> whose values are all \<open>true\<close> is the list of its
  keys, and \<open>m[k] = true\<close> is \<open>List.insert\<close>.
\<close>

type_synonym go_map = "(string \<times> string) list"
type_synonym key_set = "string list"

definition lookup :: "go_map \<Rightarrow> string \<Rightarrow> string" where
  "lookup m k = (case map_of m k of None \<Rightarrow> [] | Some v \<Rightarrow> v)"

text \<open>
  Modelled from the spec: the annotation keys are constants of the package
  \<open>constants\<close>, which is not among the sources; the spec names the three annotations
  \<open>infisical.secret-version\<close>, \<open>infisical.managed-labels\<close> and
  \<open>infisical.managed-annotations\<close>.
\<close>

definition SECRET_VERSION_ANNOTATION :: string where
  "SECRET_VERSION_ANNOTATION = ''infisical.secret-version''"

definition MANAGED_LABELS_ANNOTATION :: string where
  "MANAGED_LABELS_ANNOTATION = ''infisical.managed-labels''"

definition MANAGED_ANNOTATIONS_ANNOTATION :: string where
  "MANAGED_ANNOTATIONS_ANNOTATION = ''infisical.managed-annotations''"

definition SYSTEM_PREFIXES :: "string list" where
  "SYSTEM_PREFIXES = [''kubectl.kubernetes.io/'', ''kubernetes.io/'', ''k8s.io/'', ''helm.sh/'']"

text \<open>
  The loop over \<open>SYSTEM_PREFIXES\<close> that sets \<open>isSystem\<close>, which the source repeats for
  every key it looks at.
\<close>

definition isSystem :: "string \<Rightarrow> bool" where
  "isSystem k = list_ex (\<lambda>prefix. HasPrefix k prefix) SYSTEM_PREFIXES"

text \<open>The metadata of an object: of the custom resource and of a managed object.\<close>

record ObjectMeta =
  Labels :: go_map
  Annotations :: go_map

datatype ManagedKubeResourceType =
    MANAGED_KUBE_RESOURCE_TYPE_SECRET
  | MANAGED_KUBE_RESOURCE_TYPE_CONFIG_MAP
  | OtherResourceType

text \<open>The object handed to \<open>Client.Create\<close> or \<open>Client.Update\<close>.\<close>

record ManagedResource =
  Kind :: ManagedKubeResourceType
  Meta :: ObjectMeta
  Payload :: go_map

datatype write_error =
    TemplateError string     \<comment> \<open>\<open>unable to compile template\<close>, \<open>unable to execute template\<close>\<close>
  | InvalidResourceType      \<comment> \<open>\<open>invalid resource type\<close>\<close>

definition parseManagedKeys :: "string \<Rightarrow> key_set" where
  "parseManagedKeys value =
     (if value = [] then []
      else foldl (\<lambda>managedKeys key.
                    let key' = TrimSpace key
                    in if key' \<noteq> [] then List.insert key' managedKeys else managedKeys)
             [] (Split value (CHR '','')))"

definition formatManagedKeys :: "key_set \<Rightarrow> string" where
  "formatManagedKeys keys = (if length keys = 0 then [] else Join (sort keys) '','')"

text \<open>The keys of the labels, and the keys of the annotations that are not system keys.\<close>

definition labelKeys :: "go_map \<Rightarrow> key_set" where
  "labelKeys labels = foldl (\<lambda>keys (k, v). List.insert k keys) [] labels"

definition annotationKeys :: "go_map \<Rightarrow> key_set" where
  "annotationKeys annotations =
     foldl (\<lambda>keys (k, v). if isSystem k then keys else List.insert k keys) [] annotations"

text \<open>
  \<open>createInfisicalManagedKubeResource\<close>. The rendering of the templates is the work of
  \<open>text/template\<close>; its outcome \<open>rendered\<close> is an input: the error of a template that
  does not compile or execute, or the map \<open>plainProcessedSecrets\<close>. The result is the
  object given to \<open>Client.Create\<close>.
\<close>

definition createInfisicalManagedKubeResource ::
  "ObjectMeta \<Rightarrow> string + go_map \<Rightarrow> string \<Rightarrow> ManagedKubeResourceType
   \<Rightarrow> write_error + ManagedResource" where
  "createInfisicalManagedKubeResource infisicalSecret rendered ETag resourceType =
     (case rendered of
        Inl err \<Rightarrow> Inl (TemplateError err)
      | Inr plainProcessedSecrets \<Rightarrow>
          let labels = foldl (\<lambda>m (k, v). AList.update k v m) [] (Labels infisicalSecret);
              annotations0 =
                foldl (\<lambda>m (k, v). if isSystem k then m else AList.update k v m) []
                  (Annotations infisicalSecret);
              managedLabelKeys = labelKeys (Labels infisicalSecret);
              managedAnnotationKeys = annotationKeys (Annotations infisicalSecret);
              annotations1 =
                AList.update MANAGED_LABELS_ANNOTATION (formatManagedKeys managedLabelKeys)
                  annotations0;
              annotations =
                AList.update MANAGED_ANNOTATIONS_ANNOTATION
                  (formatManagedKeys managedAnnotationKeys) annotations1
          in if resourceType = MANAGED_KUBE_RESOURCE_TYPE_SECRET then
               Inr \<lparr>Kind = MANAGED_KUBE_RESOURCE_TYPE_SECRET,
                    Meta = \<lparr>Labels = labels,
                            Annotations = AList.update SECRET_VERSION_ANNOTATION ETag annotations\<rparr>,
                    Payload = plainProcessedSecrets\<rparr>
             else if resourceType = MANAGED_KUBE_RESOURCE_TYPE_CONFIG_MAP then
               Inr \<lparr>Kind = MANAGED_KUBE_RESOURCE_TYPE_CONFIG_MAP,
                    Meta = \<lparr>Labels = labels, Annotations = annotations\<rparr>,
                    Payload = plainProcessedSecrets\<rparr>
             else Inl InvalidResourceType)"

text \<open>\<open>syncLabelsAndAnnotations\<close> returns the new annotations and the new labels.\<close>

definition syncLabelsAndAnnotations ::
  "ObjectMeta \<Rightarrow> go_map \<Rightarrow> go_map \<Rightarrow> go_map \<times> go_map" where
  "syncLabelsAndAnnotations infisicalSecret existingAnnotations existingLabels =
     (let previouslyManagedLabels =
            parseManagedKeys (lookup existingAnnotations MANAGED_LABELS_ANNOTATION);
          previouslyManagedAnnotations =
            parseManagedKeys (lookup existingAnnotations MANAGED_ANNOTATIONS_ANNOTATION);
          currentCrdLabelKeys = labelKeys (Labels infisicalSecret);
          currentCrdAnnotationKeys = annotationKeys (Annotations infisicalSecret);
          newLabels0 =
            foldl (\<lambda>m (k, v). if k \<notin> set previouslyManagedLabels then AList.update k v m else m)
              [] existingLabels;
          newLabels = foldl (\<lambda>m (k, v). AList.update k v m) newLabels0 (Labels infisicalSecret);
          newAnnotations0 =
            foldl (\<lambda>m (k, v).
                     if isSystem k \<or> k = SECRET_VERSION_ANNOTATION
                        \<or> k = MANAGED_LABELS_ANNOTATION \<or> k = MANAGED_ANNOTATIONS_ANNOTATION
                     then AList.update k v m
                     else if k \<notin> set previouslyManagedAnnotations then AList.update k v m
                     else m)
              [] existingAnnotations;
          newAnnotations1 =
            foldl (\<lambda>m (k, v). if isSystem k then m else AList.update k v m) newAnnotations0
              (Annotations infisicalSecret);
          newAnnotations2 =
            AList.update MANAGED_LABELS_ANNOTATION (formatManagedKeys currentCrdLabelKeys)
              newAnnotations1;
          newAnnotations =
            AList.update MANAGED_ANNOTATIONS_ANNOTATION
              (formatManagedKeys currentCrdAnnotationKeys) newAnnotations2
      in (newAnnotations, newLabels))"

text \<open>
  \<open>updateInfisicalManagedKubeSecret\<close> and \<open>updateInfisicalManagedConfigMap\<close>: the object
  given to \<open>Client.Update\<close>.
\<close>

definition updateInfisicalManagedKubeSecret ::
  "ObjectMeta \<Rightarrow> ManagedResource \<Rightarrow> string + go_map \<Rightarrow> string \<Rightarrow> write_error + ManagedResource" where
  "updateInfisicalManagedKubeSecret infisicalSecret managedKubeSecret rendered ETag =
     (case rendered of
        Inl err \<Rightarrow> Inl (TemplateError err)
      | Inr plainProcessedSecrets \<Rightarrow>
          (case syncLabelsAndAnnotations infisicalSecret
                  (Annotations (Meta managedKubeSecret)) (Labels (Meta managedKubeSecret)) of
             (newAnnotations, newLabels) \<Rightarrow>
               Inr (managedKubeSecret
                     \<lparr>Meta := \<lparr>Labels = newLabels,
                               Annotations =
                                 AList.update SECRET_VERSION_ANNOTATION ETag newAnnotations\<rparr>,
                      Payload := plainProcessedSecrets\<rparr>)))"

definition updateInfisicalManagedConfigMap ::
  "ObjectMeta \<Rightarrow> ManagedResource \<Rightarrow> string + go_map \<Rightarrow> string \<Rightarrow> write_error + ManagedResource" where
  "updateInfisicalManagedConfigMap infisicalSecret managedConfigMap rendered ETag =
     (case rendered of
        Inl err \<Rightarrow> Inl (TemplateError err)
      | Inr plainProcessedSecrets \<Rightarrow>
          (case syncLabelsAndAnnotations infisicalSecret
                  (Annotations (Meta managedConfigMap)) (Labels (Meta managedConfigMap)) of
             (newAnnotations, newLabels) \<Rightarrow>
               Inr (managedConfigMap
                     \<lparr>Meta := \<lparr>Labels = newLabels,
                               Annotations =
                                 AList.update SECRET_VERSION_ANNOTATION ETag newAnnotations\<rparr>,
                      Payload := plainProcessedSecrets\<rparr>)))"

subsection \<open>The etag\<close>







section \<open>Properties of internal/util\<close>

text \<open>
  C10. On the empty string \<open>AppendAPIEndpoint\<close> panics with an index out of range. On
  every non-empty address it returns: the address itself when it already ends in
  \<open>/api\<close>, otherwise the address with \<open>api\<close> appended (when it ends in a slash) or with
  \<open>/api\<close> appended. So it returns a value exactly on the non-empty strings.
\<close>

theorem AppendAPIEndpoint_total_edge:
  "AppendAPIEndpoint [] = Inl IndexOutOfRange
   \<and> (address \<noteq> [] \<longrightarrow>
        (HasSuffix address ''/api'' \<longrightarrow> AppendAPIEndpoint address = Inr address)
      \<and> (\<not> HasSuffix address ''/api'' \<longrightarrow>
           AppendAPIEndpoint address =
             Inr (address @ (if last address = CHR ''/'' then ''api'' else ''/api''))))
   \<and> ((\<exists>r. AppendAPIEndpoint address = Inr r) \<longleftrightarrow> address \<noteq> [])"
proof -
  have empty: "AppendAPIEndpoint [] = Inl IndexOutOfRange"
    by (simp add: AppendAPIEndpoint_def HasSuffix_def)
  have idx: "address ! (length address - 1) = last address" if "address \<noteq> []"
    using that by (simp add: last_conv_nth)
  have nonempty: "AppendAPIEndpoint address =
      (if HasSuffix address ''/api'' then Inr address
       else Inr (address @ (if last address = CHR ''/'' then ''api'' else ''/api'')))"
    if "address \<noteq> []"
    using that idx by (simp add: AppendAPIEndpoint_def)
  have total: "(\<exists>r. AppendAPIEndpoint address = Inr r) \<longleftrightarrow> address \<noteq> []"
  proof (cases "address = []")
    case True
    then show ?thesis using empty by simp
  next
    case False
    then show ?thesis using nonempty by simp
  qed
  show ?thesis using empty nonempty total by simp
qed

theorem AppendAPIEndpoint_total_edge_witness:
  "AppendAPIEndpoint [] = Inl IndexOutOfRange
   \<and> AppendAPIEndpoint ''https://h/'' = Inr ''https://h/api''
   \<and> AppendAPIEndpoint ''https://h'' = Inr ''https://h/api''
   \<and> AppendAPIEndpoint ''https://h/api'' = Inr ''https://h/api''"
  using AppendAPIEndpoint_total_edge [of "''https://h/''"]
    AppendAPIEndpoint_total_edge [of "''https://h''"]
    AppendAPIEndpoint_total_edge [of "''https://h/api''"]
  by (simp add: HasSuffix_def)

subsection \<open>ConvertIntervalToDuration\<close>

lemma drop_last_byte: "s \<noteq> [] \<Longrightarrow> drop (length s - Suc 0) s = [last s]"
proof -
  assume "s \<noteq> []"
  then have "s = butlast s @ [last s]" by simp
  then have "drop (length (butlast s)) s = [last s]"
    by (metis append_eq_conv_conj)
  then show ?thesis by simp
qed

lemma take_butlast_byte: "take (length s - Suc 0) s = butlast s"
  by (simp add: butlast_conv_take)

lemma Atoi_Inr_iff:
  "Atoi s = Inr n \<longleftrightarrow>
     isSignedDecimal s \<and> - (2 ^ 63) \<le> decimalValue s \<and> decimalValue s < 2 ^ 63
     \<and> n = word_of_int (decimalValue s)"
  by (auto simp: Atoi_def)

lemma sint_in_range:
  "- (2 ^ 63) \<le> x \<Longrightarrow> x < 2 ^ 63 \<Longrightarrow> sint (word_of_int x :: 64 word) = x"
  by (simp add: sint_sbintrunc' signed_take_bit_int_eq_self)

lemma less_s5: "- (2 ^ 63) \<le> x \<Longrightarrow> x < 2 ^ 63 \<Longrightarrow> ((word_of_int x :: 64 word) <s 5) = (x < 5)"
  by (simp add: word_sless_alt sint_sbintrunc' signed_take_bit_int_eq_self)

lemma conv_unfold:
  assumes "2 \<le> length s"
  shows "ConvertIntervalToDuration (Some s) =
     (case Atoi (butlast s) of
        Inl err \<Rightarrow> Inl err
      | Inr number \<Rightarrow>
          if last s = CHR ''s'' then
            (if number <s 5 then Inl AtLeastFiveSeconds else Inr (number * Second))
          else if last s = CHR ''m'' then Inr (number * Minute)
          else if last s = CHR ''h'' then Inr (number * Hour)
          else if last s = CHR ''d'' then Inr (number * 24 * Hour)
          else if last s = CHR ''w'' then Inr (number * 7 * 24 * Hour)
          else Inl InvalidTimeUnit)"
proof -
  have ne: "s \<noteq> []" "\<not> length s < 2" using assms by auto
  show ?thesis
    unfolding ConvertIntervalToDuration_def
    using ne by (simp add: drop_last_byte take_butlast_byte Let_def split: sum.splits)
qed

lemma conv_short: "length s < 2 \<Longrightarrow> s \<noteq> [] \<Longrightarrow> ConvertIntervalToDuration (Some s) = Inl InvalidFormat"
  by (simp add: ConvertIntervalToDuration_def)

lemma short_not_decimal: "length s < 2 \<Longrightarrow> \<not> isSignedDecimal (butlast s)"
  by (cases s) (auto simp: isSignedDecimal_def stripSign_def)

lemma conv_value:
  assumes "2 \<le> length s" and "ConvertIntervalToDuration (Some s) = Inr d"
  shows "d = word_of_int (decimalValue (butlast s) * unitNanos (last s))"
  using assms(2) unfolding conv_unfold [OF assms(1)]
  by (auto simp: Atoi_Inr_iff unitNanos_def Second_def Minute_def Hour_def
           split: sum.splits if_splits)

lemma conv_ok_iff:
  assumes "2 \<le> length s"
  shows "(\<exists>d. ConvertIntervalToDuration (Some s) = Inr d) \<longleftrightarrow>
     (isSignedDecimal (butlast s) \<and> - (2 ^ 63) \<le> decimalValue (butlast s)
      \<and> decimalValue (butlast s) < 2 ^ 63 \<and> last s \<in> set ''smhdw''
      \<and> (last s = CHR ''s'' \<longrightarrow> 5 \<le> decimalValue (butlast s)))"
proof (cases "Atoi (butlast s)")
  case (Inl e)
  then have "\<not> (isSignedDecimal (butlast s) \<and> - (2 ^ 63) \<le> decimalValue (butlast s)
      \<and> decimalValue (butlast s) < 2 ^ 63)"
    by (auto simp: Atoi_def split: if_splits)
  then show ?thesis unfolding conv_unfold [OF assms] using Inl by auto
next
  case (Inr n)
  then have n: "isSignedDecimal (butlast s)" "- (2 ^ 63) \<le> decimalValue (butlast s)"
      "decimalValue (butlast s) < 2 ^ 63" "n = word_of_int (decimalValue (butlast s))"
    by (simp_all add: Atoi_Inr_iff)
  have "(n <s 5) = (decimalValue (butlast s) < 5)"
    using n less_s5 by simp
  then show ?thesis unfolding conv_unfold [OF assms] using Inr n(1,2,3) by auto
qed

text \<open>
  C9. The converter returns a duration exactly for the empty string (the duration 0,
  no periodic resync) and for the strings \<open>N\<close>\<open>unit\<close> where \<open>N\<close> is an optionally
  signed decimal integer within the range of a 64-bit \<open>int\<close>, the unit is one of
  \<open>s\<close>, \<open>m\<close>, \<open>h\<close>, \<open>d\<close>, \<open>w\<close>, and \<open>N\<close> is at least 5 for the unit \<open>s\<close>; every other
  string is an error. The duration returned is \<open>N\<close> times the length of the unit in
  64-bit arithmetic, hence equal to that product whenever the product fits in an
  \<open>int64\<close>.
\<close>

theorem ConvertIntervalToDuration_int64:
  "((\<exists>d. ConvertIntervalToDuration (Some s) = Inr d) \<longleftrightarrow>
      s = [] \<or>
      (isSignedDecimal (butlast s) \<and> - (2 ^ 63) \<le> decimalValue (butlast s)
       \<and> decimalValue (butlast s) < 2 ^ 63 \<and> last s \<in> set ''smhdw''
       \<and> (last s = CHR ''s'' \<longrightarrow> 5 \<le> decimalValue (butlast s))))
   \<and> ConvertIntervalToDuration (Some []) = Inr 0
   \<and> (s \<noteq> [] \<and> ConvertIntervalToDuration (Some s) = Inr d \<longrightarrow>
        d = word_of_int (decimalValue (butlast s) * unitNanos (last s))
        \<and> (- (2 ^ 63) \<le> decimalValue (butlast s) * unitNanos (last s)
             \<and> decimalValue (butlast s) * unitNanos (last s) < 2 ^ 63 \<longrightarrow>
             sint d = decimalValue (butlast s) * unitNanos (last s)))"
proof -
  have zero: "ConvertIntervalToDuration (Some []) = Inr 0"
    by (simp add: ConvertIntervalToDuration_def)
  have ok: "(\<exists>d. ConvertIntervalToDuration (Some s) = Inr d) \<longleftrightarrow>
      s = [] \<or>
      (isSignedDecimal (butlast s) \<and> - (2 ^ 63) \<le> decimalValue (butlast s)
       \<and> decimalValue (butlast s) < 2 ^ 63 \<and> last s \<in> set ''smhdw''
       \<and> (last s = CHR ''s'' \<longrightarrow> 5 \<le> decimalValue (butlast s)))"
  proof (cases "s = []")
    case True
    then show ?thesis using zero by simp
  next
    case ne: False
    show ?thesis
    proof (cases "length s < 2")
      case True
      then show ?thesis using ne conv_short short_not_decimal by auto
    next
      case False
      then have "2 \<le> length s" by simp
      then show ?thesis using ne conv_ok_iff by simp
    qed
  qed
  have val: "d = word_of_int (decimalValue (butlast s) * unitNanos (last s))"
    if "s \<noteq> []" "ConvertIntervalToDuration (Some s) = Inr d"
  proof (cases "length s < 2")
    case True
    then show ?thesis using that conv_short by auto
  next
    case False
    then show ?thesis using that conv_value by simp
  qed
  show ?thesis using zero ok val sint_in_range by blast
qed

theorem ConvertIntervalToDuration_int64_witness:
  "ConvertIntervalToDuration (Some ''30s'') = Inr 30000000000
   \<and> sint (30000000000 :: Duration) = 30 * unitNanos (CHR ''s'')
   \<and> isSignedDecimal ''30'' \<and> decimalValue ''30'' = 30"
proof -
  have run: "ConvertIntervalToDuration (Some ''30s'') = Inr 30000000000"
    by (simp add: ConvertIntervalToDuration_def Atoi_def isSignedDecimal_def stripSign_def
        decimalValue_def isDigit_def Second_def word_sless_alt)
  have dec: "isSignedDecimal ''30''" "decimalValue ''30'' = 30"
    by (simp_all add: isSignedDecimal_def stripSign_def decimalValue_def isDigit_def)
  show ?thesis
    using ConvertIntervalToDuration_int64 [of "''30s''" 30000000000] run dec
    by (simp add: unitNanos_def)
qed

text \<open>
  The claim as it was written fails where the 64-bit arithmetic shows: \<open>9223372037s\<close>
  is accepted and its product with the second wraps around to a negative duration, and
  the decimal integer \<open>9223372036854775808\<close> is refused by \<open>strconv.Atoi\<close> although its
  unit is a valid one.
\<close>

theorem ConvertIntervalToDuration_overflow_counterexample:
  "isSignedDecimal ''9223372037'' \<and> decimalValue ''9223372037'' = 9223372037
   \<and> ConvertIntervalToDuration (Some ''9223372037s'') = Inr (- 9223372036709551616)
   \<and> sint (- 9223372036709551616 :: Duration) \<noteq> 9223372037 * unitNanos (CHR ''s'')
   \<and> isSignedDecimal ''9223372036854775808''
   \<and> ConvertIntervalToDuration (Some ''9223372036854775808m'') = Inl AtoiRange"
  by (simp add: ConvertIntervalToDuration_def Atoi_def isSignedDecimal_def stripSign_def
      decimalValue_def isDigit_def Second_def word_sless_alt unitNanos_def)

section \<open>Properties of the event parser\<close>

lemma isPingEvent_iff:
  "isPingEvent event \<longleftrightarrow>
     Event event = ''ping'' \<or> (Event event = [] \<and> TrimSpace (Data event) = ''1'')"
  by (simp add: isPingEvent_def)

text \<open>
  \<open>parseLine\<close> never writes the \<open>Data\<close> field, and it writes the \<open>Event\<close> field only for a
  line that begins with \<open>event:\<close>. So as long as no such line arrives, the guard of
  \<open>processStream\<close> at an empty line finds both fields empty, whatever has been
  collected in the builder, and nothing is dispatched.
\<close>

lemma parseLine_keeps_Data: "Data (fst (parseLine line event dataBuilder)) = Data event"
  by (simp add: parseLine_def Let_def)

lemma IndexByte_found:
  "IndexByte s c \<noteq> - 1 \<Longrightarrow>
   0 \<le> IndexByte s c \<and> nat (IndexByte s c) < length s \<and> s ! nat (IndexByte s c) = c"
proof (induction s)
  case Nil
  then show ?case by simp
next
  case (Cons x xs)
  show ?case
  proof (cases "x = c")
    case True
    then show ?thesis by simp
  next
    case False
    then have ne: "IndexByte xs c \<noteq> - 1" using Cons.prems by (auto simp: Let_def split: if_splits)
    then have ih: "0 \<le> IndexByte xs c" "nat (IndexByte xs c) < length xs"
      "xs ! nat (IndexByte xs c) = c"
      using Cons.IH by simp_all
    have "IndexByte (x # xs) c = IndexByte xs c + 1" using False ne by (simp add: Let_def)
    then show ?thesis using ih by (simp add: nat_add_distrib)
  qed
qed

lemma parseLine_keeps_Event:
  assumes "\<not> HasPrefix line ''event:''"
  shows "Event (fst (parseLine line event dataBuilder)) = Event event"
proof (cases "IndexByte line (CHR '':'') = - 1")
  case True
  then show ?thesis by (simp add: parseLine_def)
next
  case False
  let ?i = "nat (IndexByte line (CHR '':''))"
  have found: "?i < length line" "line ! ?i = CHR '':''"
    using IndexByte_found [OF False] by simp_all
  have "take ?i line \<noteq> ''event''"
  proof
    assume field: "take ?i line = ''event''"
    then have "length (take ?i line) = 5" by simp
    then have len: "?i = 5" using found(1) by simp
    have "take (Suc ?i) line = take ?i line @ [line ! ?i]"
      using found(1) by (simp add: take_Suc_conv_app_nth)
    then have "take 6 line = ''event:''" using field found(2) len by simp
    moreover have "6 \<le> length line" using found(1) len by simp
    ultimately show False using assms by (simp add: HasPrefix_def eval_nat_numeral)
  qed
  then show ?thesis using False by (simp add: parseLine_def Let_def)
qed

lemma nameless_event_never_dispatched:
  "Event e = [] \<Longrightarrow> Data e = [] \<Longrightarrow> \<forall>line \<in> set lines. \<not> HasPrefix line ''event:'' \<Longrightarrow>
   processLines ctxDone i e b lines = []"
proof (induction lines arbitrary: i e b)
  case Nil
  then show ?case by simp
next
  case (Cons line lines)
  have rest: "\<forall>l \<in> set lines. \<not> HasPrefix l ''event:''" using Cons.prems(3) by simp
  have here: "\<not> HasPrefix line ''event:''" using Cons.prems(3) by simp
  show ?case
  proof (cases "ctxDone i \<or> line = []")
    case True
    then show ?thesis using Cons.IH [OF Cons.prems(1,2) rest] Cons.prems(1,2) by auto
  next
    case False
    obtain e' b' where p: "parseLine line e b = (e', b')" by (cases "parseLine line e b")
    have "Event e' = []" "Data e' = []"
      using parseLine_keeps_Event [OF here, of e b] parseLine_keeps_Data [of line e b] p
        Cons.prems(1,2) by simp_all
    then have "processLines ctxDone (Suc i) e' b' lines = []" using rest by (rule Cons.IH)
    then show ?thesis using False p by simp
  qed
qed

subsection \<open>The round trip for events that have a name\<close>

text \<open>
  The scanner returns the lines of an encoded event as they were written, and the
  reader rebuilds the event from them when the event has a name: the name opens the
  guard at the empty line, and the data is then taken from the builder.
\<close>

lemma dropCR_id: "CR \<notin> set l \<Longrightarrow> dropCR l = l"
proof (cases "l = []")
  case True
  then show ?thesis by (simp add: dropCR_def)
next
  case False
  assume "CR \<notin> set l"
  moreover have "l ! (length l - 1) \<in> set l" using False by simp
  ultimately have "l ! (length l - 1) \<noteq> CR" by metis
  then show ?thesis by (simp add: dropCR_def)
qed

lemma scanFrom_line:
  "LF \<notin> set l \<Longrightarrow> scanFrom cur (l @ LF # rest) = dropCR (cur @ l) # scanFrom [] rest"
  by (induction l arbitrary: cur) auto

lemma scan_field:
  assumes "wfLine v" "wfLine name"
  shows "scanFrom [] (spec_field name v @ rest) = (name @ '': '' @ v) # scanFrom [] rest"
proof -
  have nl: "LF \<notin> set (name @ '': '' @ v)" "CR \<notin> set (name @ '': '' @ v)"
    using assms by (auto simp: wfLine_def LF_def CR_def)
  have "spec_field name v @ rest = (name @ '': '' @ v) @ LF # rest"
    by (simp add: spec_field_def)
  then show ?thesis using scanFrom_line [OF nl(1), of "[]" rest] dropCR_id [OF nl(2)] by simp
qed

lemma scan_data_fields:
  "\<forall>l \<in> set ls. wfLine l \<Longrightarrow>
   scanFrom [] (concat (map (spec_field ''data'') ls) @ rest) =
     map (\<lambda>l. ''data: '' @ l) ls @ scanFrom [] rest"
proof (induction ls)
  case Nil
  then show ?case by simp
next
  case (Cons l ls)
  have w: "wfLine ''data''" by (simp add: wfLine_def LF_def CR_def)
  have "scanFrom [] (spec_field ''data'' l @ (concat (map (spec_field ''data'') ls) @ rest)) =
      (''data'' @ '': '' @ l) # scanFrom [] (concat (map (spec_field ''data'') ls) @ rest)"
    using Cons.prems w by (intro scan_field) simp_all
  then show ?case using Cons by simp
qed

lemma splitFrom_nonempty: "splitFrom cur sep s \<noteq> []"
  by (induction s arbitrary: cur) simp_all

lemma Join_Cons: "xs \<noteq> [] \<Longrightarrow> Join (x # xs) sep = x @ sep @ Join xs sep"
  by (cases xs) simp_all

lemma Join_splitFrom: "Join (splitFrom cur sep s) [sep] = cur @ s"
proof (induction s arbitrary: cur)
  case Nil
  then show ?case by simp
next
  case (Cons c s)
  show ?case
  proof (cases "c = sep")
    case True
    have "Join (cur # splitFrom [] sep s) [sep] = cur @ [sep] @ Join (splitFrom [] sep s) [sep]"
      by (rule Join_Cons) (rule splitFrom_nonempty)
    then show ?thesis using True Cons.IH [of "[]"] by simp
  next
    case False
    then show ?thesis using Cons.IH [of "cur @ [c]"] by simp
  qed
qed

lemma Join_Split: "Join (Split s sep) [sep] = s"
  by (simp add: Split_def Join_splitFrom)

lemma splitFrom_lines:
  "sep \<notin> set cur \<Longrightarrow> c \<notin> set cur \<Longrightarrow> c \<notin> set s \<Longrightarrow>
   l \<in> set (splitFrom cur sep s) \<Longrightarrow> sep \<notin> set l \<and> c \<notin> set l"
proof (induction s arbitrary: cur)
  case Nil
  then show ?case by simp
next
  case (Cons x s)
  show ?case
  proof (cases "x = sep")
    case True
    then have "l = cur \<or> l \<in> set (splitFrom [] sep s)" using Cons.prems(4) by simp
    then show ?thesis
    proof
      assume "l = cur"
      then show ?thesis using Cons.prems by simp
    next
      assume "l \<in> set (splitFrom [] sep s)"
      then show ?thesis using Cons.IH [of "[]"] Cons.prems(3) by simp
    qed
  next
    case False
    then have "l \<in> set (splitFrom (cur @ [x]) sep s)" using Cons.prems(4) by simp
    then show ?thesis using Cons.IH [of "cur @ [x]"] Cons.prems False by simp
  qed
qed

lemma Split_wfLine: "CR \<notin> set d \<Longrightarrow> l \<in> set (Split d LF) \<Longrightarrow> wfLine l"
  using splitFrom_lines [of LF "[]" CR d l] by (simp add: Split_def wfLine_def)

lemma splitFrom_hd: "cur \<noteq> [] \<Longrightarrow> hd (splitFrom cur sep s) \<noteq> []"
  by (induction s arbitrary: cur) simp_all

lemma Split_hd: "d \<noteq> [] \<Longrightarrow> hd d \<noteq> LF \<Longrightarrow> hd (Split d LF) \<noteq> []"
  by (cases d) (simp_all add: Split_def splitFrom_hd)

lemma parseLine_id: "parseLine (''id: '' @ v) e b = (e\<lparr>ID := v\<rparr>, b)"
  by (simp add: parseLine_def)

lemma parseLine_event: "parseLine (''event: '' @ v) e b = (e\<lparr>Event := v\<rparr>, b)"
  by (simp add: parseLine_def)

lemma parseLine_data:
  "parseLine (''data: '' @ v) e b = (e, (if b \<noteq> [] then b @ [LF] else b) @ v)"
  by (simp add: parseLine_def)

lemma processLines_index:
  "processLines ctxAlive i e b ls = processLines ctxAlive j e b ls"
proof (induction ls arbitrary: i j e b)
  case Nil
  then show ?case by simp
next
  case (Cons l ls)
  have step: "processLines ctxAlive (Suc i) e' b' ls = processLines ctxAlive (Suc j) e' b' ls"
    for e' b'
    by (rule Cons.IH)
  show ?case
    by (simp add: ctxAlive_def [of i] ctxAlive_def [of j] step Let_def split: prod.splits)
qed

lemma process_nonempty_line:
  "line \<noteq> [] \<Longrightarrow> parseLine line e b = (e', b') \<Longrightarrow>
   processLines ctxAlive i e b (line # rest) = processLines ctxAlive 0 e' b' rest"
  using processLines_index [of "Suc i" e' b' rest 0] by (simp add: ctxAlive_def)

lemma process_data_lines:
  "processLines ctxAlive 0 e b (map (\<lambda>l. ''data: '' @ l) ls @ rest) =
     processLines ctxAlive 0 e (foldl (\<lambda>b l. (if b \<noteq> [] then b @ [LF] else b) @ l) b ls) rest"
proof (induction ls arbitrary: b)
  case Nil
  then show ?case by simp
next
  case (Cons l ls)
  have "processLines ctxAlive 0 e b ((''data: '' @ l) # (map (\<lambda>l. ''data: '' @ l) ls @ rest)) =
      processLines ctxAlive 0 e ((if b \<noteq> [] then b @ [LF] else b) @ l)
        (map (\<lambda>l. ''data: '' @ l) ls @ rest)"
    using parseLine_data [of l e b] by (intro process_nonempty_line) simp_all
  then show ?case using Cons.IH by simp
qed

lemma data_builder_join:
  "b \<noteq> [] \<Longrightarrow>
   foldl (\<lambda>b l. (if b \<noteq> [] then b @ [LF] else b) @ l) b ls = Join (b # ls) [LF]"
proof (induction ls arbitrary: b)
  case Nil
  then show ?case by simp
next
  case (Cons l ls)
  have "foldl (\<lambda>b l. (if b \<noteq> [] then b @ [LF] else b) @ l) (b @ [LF] @ l) ls
      = Join ((b @ [LF] @ l) # ls) [LF]"
    by (rule Cons.IH) simp
  moreover have "Join ((b @ [LF] @ l) # ls) [LF] = Join (b # l # ls) [LF]"
    by (cases ls) simp_all
  ultimately show ?case using Cons.prems by simp
qed

lemma data_builder_Split:
  assumes "d \<noteq> []" "hd d \<noteq> LF"
  shows "foldl (\<lambda>b l. (if b \<noteq> [] then b @ [LF] else b) @ l) [] (Split d LF) = d"
proof -
  obtain l ls where sp: "Split d LF = l # ls"
    using splitFrom_nonempty [of "[]" LF d] by (cases "Split d LF") (simp_all add: Split_def)
  have "l \<noteq> []" using Split_hd [OF assms] sp by simp
  then have "foldl (\<lambda>b l. (if b \<noteq> [] then b @ [LF] else b) @ l) l ls = Join (l # ls) [LF]"
    by (rule data_builder_join)
  then show ?thesis using sp Join_Split [of d LF] by simp
qed

lemma scan_event:
  assumes "wfNamed e"
  shows "scanFrom [] (spec_encodeEvent e @ rest) =
     (if ID e = [] then [] else [''id: '' @ ID e])
     @ [''event: '' @ Event e]
     @ (if Data e = [] then [] else map (\<lambda>l. ''data: '' @ l) (Split (Data e) LF))
     @ [[]] @ scanFrom [] rest"
proof -
  have w: "wfLine ''id''" "wfLine ''event''" by (simp_all add: wfLine_def LF_def CR_def)
  have wf: "wfLine (ID e)" "wfLine (Event e)" "Event e \<noteq> []" "CR \<notin> set (Data e)"
    using assms by (simp_all add: wfNamed_def)
  have lines: "\<forall>l \<in> set (Split (Data e) LF). wfLine l"
    using Split_wfLine [OF wf(4)] by blast
  have last: "scanFrom [] (LF # rest) = [] # scanFrom [] rest"
    by (simp add: dropCR_def)
  have data: "scanFrom [] ((if Data e = [] then []
                  else concat (map (spec_field ''data'') (Split (Data e) LF))) @ LF # rest) =
      (if Data e = [] then [] else map (\<lambda>l. ''data: '' @ l) (Split (Data e) LF))
      @ [[]] @ scanFrom [] rest"
    using scan_data_fields [OF lines, of "LF # rest"] last by simp
  have ev: "scanFrom [] (spec_field ''event'' (Event e) @ tl) =
      (''event: '' @ Event e) # scanFrom [] tl" for tl
    using scan_field [OF wf(2) w(2), of tl] by simp
  have idl: "scanFrom [] (spec_field ''id'' (ID e) @ tl) = (''id: '' @ ID e) # scanFrom [] tl" for tl
    using scan_field [OF wf(1) w(1), of tl] by simp
  show ?thesis
  proof (cases "ID e = []")
    case True
    then show ?thesis
      using ev [of "(if Data e = [] then []
                  else concat (map (spec_field ''data'') (Split (Data e) LF))) @ LF # rest"]
        data wf(3)
      by (simp add: spec_encodeEvent_def)
  next
    case False
    then show ?thesis
      using idl [of "spec_field ''event'' (Event e) @ (if Data e = [] then []
                  else concat (map (spec_field ''data'') (Split (Data e) LF))) @ LF # rest"]
        ev [of "(if Data e = [] then []
                  else concat (map (spec_field ''data'') (Split (Data e) LF))) @ LF # rest"]
        data wf(3)
      by (simp add: spec_encodeEvent_def)
  qed
qed

lemma process_empty_line:
  "Event e \<noteq> [] \<Longrightarrow>
   processLines ctxAlive 0 e b ([] # rest) =
     spec_delivery (if b \<noteq> [] then e\<lparr>Data := b\<rparr> else e)
     # processLines ctxAlive 0 zeroEvent [] rest"
  using processLines_index [of "Suc 0" zeroEvent "[]" rest 0]
  by (simp add: ctxAlive_def spec_delivery_def Let_def)

lemma process_event:
  assumes "wfNamed e"
  shows "processLines ctxAlive 0 zeroEvent []
       ((if ID e = [] then [] else [''id: '' @ ID e])
        @ [''event: '' @ Event e]
        @ (if Data e = [] then [] else map (\<lambda>l. ''data: '' @ l) (Split (Data e) LF))
        @ [[]] @ rest)
     = spec_delivery e # processLines ctxAlive 0 zeroEvent [] rest"
proof -
  let ?data = "if Data e = [] then [] else map (\<lambda>l. ''data: '' @ l) (Split (Data e) LF)"
  let ?e1 = "zeroEvent\<lparr>ID := ID e\<rparr>"
  let ?e2 = "?e1\<lparr>Event := Event e\<rparr>"
  have named: "Event e \<noteq> []" and retry: "Retry e = 0"
    and first: "Data e \<noteq> [] \<longrightarrow> hd (Data e) \<noteq> LF"
    using assms by (simp_all add: wfNamed_def)
  have id_line: "processLines ctxAlive 0 zeroEvent []
       ((if ID e = [] then [] else [''id: '' @ ID e]) @ tl)
     = processLines ctxAlive 0 ?e1 [] tl" for tl
  proof (cases "ID e = []")
    case True
    then have "?e1 = zeroEvent" by (simp add: zeroEvent_def)
    then show ?thesis using True by simp
  next
    case False
    have "processLines ctxAlive 0 zeroEvent [] ((''id: '' @ ID e) # tl)
        = processLines ctxAlive 0 ?e1 [] tl"
      using parseLine_id [of "ID e" zeroEvent "[]"] by (intro process_nonempty_line) simp_all
    then show ?thesis using False by simp
  qed
  have event_line: "processLines ctxAlive 0 ?e1 [] ((''event: '' @ Event e) # tl)
     = processLines ctxAlive 0 ?e2 [] tl" for tl
    using parseLine_event [of "Event e" ?e1 "[]"] by (intro process_nonempty_line) simp_all
  have data_lines: "processLines ctxAlive 0 ?e2 [] (?data @ tl)
     = processLines ctxAlive 0 ?e2 (Data e) tl" for tl
  proof (cases "Data e = []")
    case True
    then show ?thesis by simp
  next
    case False
    have "hd (Data e) \<noteq> LF" using first False by simp
    with False
    have acc: "foldl (\<lambda>b l. (if b \<noteq> [] then b @ [LF] else b) @ l) [] (Split (Data e) LF) = Data e"
      by (rule data_builder_Split)
    show ?thesis by (simp only: if_not_P [OF False] process_data_lines acc)
  qed
  have whole: "(if Data e \<noteq> [] then ?e2\<lparr>Data := Data e\<rparr> else ?e2) = e"
    using retry by (cases e) (simp add: zeroEvent_def)
  have "processLines ctxAlive 0 ?e2 (Data e) ([] # rest)
     = spec_delivery e # processLines ctxAlive 0 zeroEvent [] rest"
    using process_empty_line [of ?e2 "Data e" rest] named whole by simp
  then show ?thesis
    using id_line [of "[''event: '' @ Event e] @ ?data @ [[]] @ rest"]
      event_line [of "?data @ [[]] @ rest"] data_lines [of "[[]] @ rest"]
    by simp
qed

lemma named_events_round_trip:
  assumes "\<forall>e \<in> set events. wfNamed e"
  shows "processStream ctxAlive (spec_encodeEvents events) = map spec_delivery events"
proof -
  have "processLines ctxAlive 0 zeroEvent [] (scanFrom [] (concat (map spec_encodeEvent events)))
      = map spec_delivery events"
    using assms
  proof (induction events)
    case Nil
    then show ?case by simp
  next
    case (Cons e events)
    have wf: "wfNamed e" using Cons.prems by simp
    have ih: "processLines ctxAlive 0 zeroEvent []
        (scanFrom [] (concat (map spec_encodeEvent events))) = map spec_delivery events"
      using Cons by simp
    show ?case
      using scan_event [OF wf, of "concat (map spec_encodeEvent events)"]
        process_event [OF wf, of "scanFrom [] (concat (map spec_encodeEvent events))"] ih
      by simp
  qed
  then show ?thesis by (simp add: processStream_def ScanLines_def spec_encodeEvents_def)
qed

subsection \<open>Events without a name\<close>

text \<open>
  C1. Two events are encoded as the wire format says: one with the data \<open>hello\<close> and no
  event name, then one named \<open>update\<close> with the data \<open>x\<close>. Neither is a ping, so the
  round trip would call \<open>onEvent\<close> with the first and then with the second. The reader
  calls it once: at the first empty line the data is still in the builder,
  \<open>currentEvent.Data\<close> and \<open>currentEvent.Event\<close> are both empty, and the event is not
  dispatched; its data stays in the builder and is delivered as the first line of the
  data of the next event.
\<close>

theorem processStream_data_only_event_lost:
  "spec_encodeEvents
     [\<lparr>ID = [], Event = [], Data = ''hello'', Retry = 0\<rparr>,
      \<lparr>ID = [], Event = ''update'', Data = ''x'', Retry = 0\<rparr>]
   = ''data: hello'' @ [LF, LF] @ ''event: update'' @ [LF] @ ''data: x'' @ [LF, LF]
   \<and> \<not> isPingEvent \<lparr>ID = [], Event = [], Data = ''hello'', Retry = 0\<rparr>
   \<and> \<not> isPingEvent \<lparr>ID = [], Event = ''update'', Data = ''x'', Retry = 0\<rparr>
   \<and> processStream ctxAlive
       (spec_encodeEvents
          [\<lparr>ID = [], Event = [], Data = ''hello'', Retry = 0\<rparr>,
           \<lparr>ID = [], Event = ''update'', Data = ''x'', Retry = 0\<rparr>])
     = [CallOnEvent \<lparr>ID = [], Event = ''update'', Data = ''hello'' @ [LF] @ ''x'', Retry = 0\<rparr>]"
  by (simp add: spec_encodeEvents_def spec_encodeEvent_def spec_field_def Split_def
      processStream_def ScanLines_def dropCR_def LF_def CR_def ctxAlive_def
      zeroEvent_def parseLine_def isPingEvent_def TrimSpace_def asciiSpace_def)

text \<open>
  C3. An event with no name whose data is \<open>1\<close> is a ping for \<open>isPingEvent\<close>, and an event
  with no name whose data is \<open>hello\<close> is not. When the reader receives either of them
  it does nothing: \<open>lastPingAt\<close> is not updated for the first and \<open>onEvent\<close> is not called
  for the second, because the guard before \<open>isPingEvent\<close> looks at \<open>currentEvent.Data\<close>,
  which is filled from the builder only behind that guard. A ping that carries the
  event name \<open>ping\<close> is consumed: \<open>lastPingAt\<close> is updated and \<open>onEvent\<close> is not called.
\<close>

theorem processStream_heartbeat_not_counted:
  "isPingEvent \<lparr>ID = [], Event = [], Data = ''1'', Retry = 0\<rparr>
   \<and> processStream ctxAlive
       (spec_encodeEvents [\<lparr>ID = [], Event = [], Data = ''1'', Retry = 0\<rparr>]) = []
   \<and> \<not> isPingEvent \<lparr>ID = [], Event = [], Data = ''hello'', Retry = 0\<rparr>
   \<and> processStream ctxAlive
       (spec_encodeEvents [\<lparr>ID = [], Event = [], Data = ''hello'', Retry = 0\<rparr>]) = []
   \<and> processStream ctxAlive
       (spec_encodeEvents [\<lparr>ID = [], Event = ''ping'', Data = [], Retry = 0\<rparr>])
     = [UpdateLastPing]"
  by (simp add: spec_encodeEvents_def spec_encodeEvent_def spec_field_def Split_def
      processStream_def ScanLines_def dropCR_def LF_def CR_def ctxAlive_def
      zeroEvent_def parseLine_def isPingEvent_def TrimSpace_def asciiSpace_def)

section \<open>Properties of the connection registry\<close>

subsection \<open>The conn slot\<close>

lemma live_requestFnStored [simp]: "live (r\<lparr>requestFnStored := b\<rparr>) i = live r i"
  by (simp add: live_def connCtxDone_def)

lemma slotOnly_requestFnStored [simp]: "slotOnly (r\<lparr>requestFnStored := b\<rparr>) = slotOnly r"
  by (simp add: slotOnly_def)

lemma close_None: "conn r = None \<Longrightarrow> closeConnectionLocked r = r"
  by (simp add: closeConnectionLocked_def)

lemma close_Some:
  "conn r = Some i \<Longrightarrow> closeConnectionLocked r =
     r\<lparr>store := (store r)[i := (store r ! i)\<lparr>bodyClosed := True, cancelCalled := True\<rparr>],
       conn := None\<rparr>"
  by (simp add: closeConnectionLocked_def)

lemma close_no_live:
  assumes "slotOnly r" "j < length (store (closeConnectionLocked r))"
  shows "\<not> live (closeConnectionLocked r) j"
proof (cases "conn r")
  case None
  then show ?thesis using assms by (auto simp: close_None slotOnly_def)
next
  case (Some i)
  have len: "i < length (store r)" "j < length (store r)"
    using assms Some by (simp_all add: slotOnly_def close_Some)
  show ?thesis
  proof (cases "j = i")
    case True
    then show ?thesis using len by (simp add: close_Some [OF Some] live_def)
  next
    case False
    then have "\<not> live r j" using assms(1) Some len by (auto simp: slotOnly_def)
    then show ?thesis using False len
      by (simp add: close_Some [OF Some] live_def connCtxDone_def)
  qed
qed

lemma slotOnly_close: "slotOnly r \<Longrightarrow> slotOnly (closeConnectionLocked r)"
proof -
  assume inv: "slotOnly r"
  have "conn (closeConnectionLocked r) = None"
    by (cases "conn r") (simp_all add: close_None close_Some)
  then show ?thesis using close_no_live [OF inv] by (simp add: slotOnly_def)
qed

lemma create_cancelled: "ctxCancelled r \<Longrightarrow> snd (createConnectionLocked r ps res) = r"
  by (simp add: createConnectionLocked_def)

lemma create_failed: "res = Some msg \<Longrightarrow> snd (createConnectionLocked r ps res) = r"
  by (simp add: createConnectionLocked_def)

lemma create_ok:
  "\<not> ctxCancelled r \<Longrightarrow> snd (createConnectionLocked r ps None) =
     r\<lparr>store := store r @ [\<lparr>params = ps, cancelCalled = False, bodyClosed = False,
                               readerReturned = False\<rparr>],
       conn := Some (length (store r))\<rparr>"
  by (simp add: createConnectionLocked_def)

lemma slotOnly_create:
  assumes inv: "slotOnly r" and dead: "\<forall>i<length (store r). \<not> live r i"
  shows "slotOnly (snd (createConnectionLocked r ps res))"
proof (cases "ctxCancelled r \<or> res \<noteq> None")
  case True
  then have "snd (createConnectionLocked r ps res) = r"
    using create_cancelled create_failed by (cases res) auto
  then show ?thesis using inv by simp
next
  case False
  then have eq: "snd (createConnectionLocked r ps res) =
     r\<lparr>store := store r @ [\<lparr>params = ps, cancelCalled = False, bodyClosed = False,
                               readerReturned = False\<rparr>],
       conn := Some (length (store r))\<rparr>"
    using create_ok by simp
  have "live (r\<lparr>store := store r @ [m], conn := c\<rparr>) i = live r i" if "i < length (store r)" for m c i
    using that by (simp add: live_def connCtxDone_def nth_append)
  then show ?thesis unfolding eq slotOnly_def using dead
    by (simp add: less_Suc_eq)
qed

lemma slotOnly_Subscribe: "slotOnly r \<Longrightarrow> slotOnly (snd (SubscribeWithParams r ps res))"
proof -
  assume inv: "slotOnly r"
  show ?thesis
  proof (cases "conn r")
    case None
    then have "\<forall>i<length (store r). \<not> live r i" using inv by (auto simp: slotOnly_def)
    then have "slotOnly (snd (createConnectionLocked (r\<lparr>requestFnStored := True\<rparr>) ps res))"
      using inv by (intro slotOnly_create) simp_all
    then show ?thesis using None by (simp add: SubscribeWithParams_def)
  next
    case (Some i)
    let ?c = "(closeConnectionLocked r)\<lparr>requestFnStored := True\<rparr>"
    have "slotOnly ?c" using slotOnly_close [OF inv] by simp
    moreover have "\<forall>i<length (store ?c). \<not> live ?c i"
      using close_no_live [OF inv] by simp
    ultimately have "slotOnly (snd (createConnectionLocked ?c ps res))"
      by (rule slotOnly_create)
    then show ?thesis using Some inv by (simp add: SubscribeWithParams_def)
  qed
qed

lemma set_liveMetas: "set (liveMetas r) = {i. i < length (store r) \<and> live r i}"
  unfolding liveMetas_def by (simp only: set_filter set_upt) auto

lemma slotOnly_live_le1:
  assumes inv: "slotOnly r"
  shows "length (liveMetas r) \<le> 1"
proof -
  have d: "distinct (liveMetas r)" unfolding liveMetas_def by (rule distinct_filter) simp
  have slot: "conn r = Some i" if "i \<in> set (liveMetas r)" for i
    using that inv unfolding set_liveMetas slotOnly_def by blast
  have "card (set (liveMetas r)) \<le> 1"
  proof (cases "conn r")
    case None
    then have "set (liveMetas r) = {}" using slot by fastforce
    then show ?thesis by simp
  next
    case (Some k)
    then have "set (liveMetas r) \<subseteq> {k}" using slot by fastforce
    then have "card (set (liveMetas r)) \<le> card {k}" by (intro card_mono) simp_all
    then show ?thesis by simp
  qed
  then show ?thesis using d by (simp add: distinct_card)
qed

lemma slotOnly_foldl:
  "slotOnly r \<Longrightarrow> \<forall>s \<in> set steps. \<exists>ps res. s = Subscribe ps res \<Longrightarrow>
   slotOnly (foldl step r steps)"
proof (induction steps arbitrary: r)
  case Nil
  then show ?case by simp
next
  case (Cons s steps)
  from Cons.prems(2) obtain ps res where s: "s = Subscribe ps res" by auto
  have first: "slotOnly (step r s)"
    unfolding s using Cons.prems(1) by (simp add: slotOnly_Subscribe)
  have rest: "\<forall>s \<in> set steps. \<exists>ps res. s = Subscribe ps res"
    using Cons.prems(2) by simp
  have "slotOnly (foldl step (step r s) steps)"
    using first rest by (rule Cons.IH)
  then show ?case by simp
qed

lemma subscribe_only_single_live:
  assumes "\<forall>s \<in> set steps. \<exists>ps res. s = Subscribe ps res"
  shows "length (liveMetas (run steps)) \<le> 1"
proof -
  have "slotOnly NewConnectionRegistry"
    by (simp add: slotOnly_def NewConnectionRegistry_def)
  then have "slotOnly (run steps)" unfolding run_def using assms by (rule slotOnly_foldl)
  then show ?thesis by (rule slotOnly_live_le1)
qed

lemma SubscribeWithParams_same_params:
  "conn r = Some i \<Longrightarrow> Equals (params (store r ! i)) ps \<Longrightarrow> \<not> connCtxDone r i \<Longrightarrow>
   SubscribeWithParams r ps res = (None, r)"
  by (simp add: SubscribeWithParams_def)

text \<open>
  C2. \<open>SubscribeWithParams\<close> closes the connection in the slot before it opens another
  (\<open>subscribe_only_single_live\<close>), but the reconnect loop does not: its
  \<open>createConnectionLocked\<close> overwrites \<open>r.conn\<close> whatever it holds. In the first run
  below a subscription to \<open>/a\<close> goes stale, the health monitor closes it and starts a
  reconnect loop, a subscription to \<open>/b\<close> is installed while that loop waits, and the
  loop then installs its own connection over it. In the second run the reconnect loop
  is started by a read error of the first connection instead. After either run the
  metas 1 and 2 are both live: the body of meta 1 is never closed and its context never
  cancelled, and the registry no longer points to it.
\<close>

theorem reconnect_installs_second_live_connection:
  "liveMetas (run [Subscribe \<lparr>ProjectID = ''p1'', EnvSlug = ''e1'', SecretsPath = ''/a''\<rparr> None,
                   HealthCheckStale,
                   Subscribe \<lparr>ProjectID = ''p1'', EnvSlug = ''e1'', SecretsPath = ''/b''\<rparr> None,
                   ReconnectAttempt 0 None]) = [1, 2]
   \<and> liveMetas (run [Subscribe \<lparr>ProjectID = ''p1'', EnvSlug = ''e1'', SecretsPath = ''/a''\<rparr> None,
                   ReaderStops 0 (Some ''connection reset by peer''),
                   Subscribe \<lparr>ProjectID = ''p1'', EnvSlug = ''e1'', SecretsPath = ''/b''\<rparr> None,
                   ReconnectAttempt 0 None]) = [1, 2]"
  by code_simp

subsection \<open>The reconnect loop\<close>

lemma reconnectIter_success:
  assumes "\<not> ctxCancelled r" "\<not> closeCalled (env attempt)" "requestResult (env attempt) = None"
  shows "reconnectIter ps env (Suc left) attempt backoff r =
     ([Sleep backoff, CallRequestFn],
      r\<lparr>store := store r @ [\<lparr>params = ps, cancelCalled = False, bodyClosed = False,
                               readerReturned = False\<rparr>],
        conn := Some (length (store r))\<rparr>)"
  using assms by (simp add: createConnectionLocked_def)

lemma reconnectIter_permanent:
  assumes "\<not> ctxCancelled r" "\<not> closeCalled (env attempt)"
    "requestResult (env attempt) = Some msg"
    "isPermanentError (Some (''failed to establish SSE connection: '' @ msg))"
  shows "reconnectIter ps env (Suc left) attempt backoff r =
     ([Sleep backoff, CallRequestFn,
       CallOnError (''permanent error, stopping reconnection: failed to establish SSE connection: '' @ msg)],
      r)"
  using assms by (simp add: createConnectionLocked_def)

lemma reconnectIter_transient:
  assumes "\<not> ctxCancelled r" "\<not> closeCalled (env attempt)"
    "requestResult (env attempt) = Some msg"
    "\<not> isPermanentError (Some (''failed to establish SSE connection: '' @ msg))"
  shows "reconnectIter ps env (Suc left) attempt backoff r =
     (case reconnectIter ps env left (Suc attempt)
             (minDuration (backoff * word_of_int (BackoffFactor (reconnectConfig r)))
                (MaxBackoff (reconnectConfig r))) r of
        (actions, r3) \<Rightarrow>
          ([Sleep backoff, CallRequestFn,
            CallOnError (''reconnect attempt '' @ Itoa (attempt + 1)
                          @ '' failed: failed to establish SSE connection: '' @ msg)] @ actions, r3))"
  using assms by (simp add: createConnectionLocked_def)

lemma reconnectIter_closed:
  assumes "ctxCancelled r \<or> closeCalled (env attempt)"
  shows "fst (reconnectIter ps env (Suc left) attempt backoff r) = []"
  using assms by (auto simp: Close_def Let_def)

lemma Itoa_attempts:
  "Itoa (Suc 0) = ''1''" "Itoa (Suc (Suc 0)) = ''2''" "Itoa (Suc (Suc (Suc 0))) = ''3''"
  "Itoa (Suc (Suc (Suc (Suc 0)))) = ''4''" "Itoa (Suc (Suc (Suc (Suc (Suc 0))))) = ''5''"
  by code_simp+

lemma reconnectLoop_exhaustion:
  assumes cfg: "reconnectConfig r = DefaultReconnectConfig"
    and alive: "\<not> ctxCancelled r"
    and noclose: "\<And>i. i < 5 \<Longrightarrow> \<not> closeCalled (env i)"
    and res: "\<And>i. i < 5 \<Longrightarrow> requestResult (env i) = Some (msg i)"
    and transient: "\<And>i. i < 5 \<Longrightarrow>
        \<not> isPermanentError (Some (''failed to establish SSE connection: '' @ msg i))"
  shows "reconnectLoop r ps env =
     ([Sleep Second, CallRequestFn,
       CallOnError (''reconnect attempt 1 failed: failed to establish SSE connection: '' @ msg 0),
       Sleep (2 * Second), CallRequestFn,
       CallOnError (''reconnect attempt 2 failed: failed to establish SSE connection: '' @ msg 1),
       Sleep (4 * Second), CallRequestFn,
       CallOnError (''reconnect attempt 3 failed: failed to establish SSE connection: '' @ msg 2),
       Sleep (8 * Second), CallRequestFn,
       CallOnError (''reconnect attempt 4 failed: failed to establish SSE connection: '' @ msg 3),
       Sleep (16 * Second), CallRequestFn,
       CallOnError (''reconnect attempt 5 failed: failed to establish SSE connection: '' @ msg 4),
       CallOnReconnect], r)"
proof -
  have five: "nat (MaxRetries (reconnectConfig r)) = Suc (Suc (Suc (Suc (Suc 0))))"
    by (simp add: cfg DefaultReconnectConfig_def eval_nat_numeral)
  have c: "BackoffFactor (reconnectConfig r) = 2"
    "MaxBackoff (reconnectConfig r) = 30000000000"
    "InitialBackoff (reconnectConfig r) = 1000000000"
    by (simp_all add: cfg DefaultReconnectConfig_def Second_def)
  have step: "reconnectIter ps env (Suc left) a b r =
     (case reconnectIter ps env left (Suc a) (minDuration (b * 2) 30000000000) r of
        (actions, r3) \<Rightarrow>
          ([Sleep b, CallRequestFn,
            CallOnError (''reconnect attempt '' @ Itoa (Suc a)
                          @ '' failed: failed to establish SSE connection: '' @ msg a)] @ actions, r3))"
    if "a < 5" for left a b
    using reconnectIter_transient [of r env a "msg a" ps left b]
      alive noclose [OF that] res [OF that] transient [OF that]
    by (simp add: c del: reconnectIter.simps Itoa.simps)
  show ?thesis
    unfolding reconnectLoop_def five c
    by (simp add: step Itoa_attempts minDuration_def word_sless_alt Second_def eval_nat_numeral
          del: reconnectIter.simps(2) Itoa.simps)
qed

text \<open>
  C6. With the default configuration, on a registry that is not closed and on which
  \<open>Close\<close> is not called during the run: when every call of \<open>requestFn\<close> fails with a
  transient error, the loop sleeps 1, 2, 4, 8 and 16 seconds, each sleep followed by
  one call of \<open>requestFn\<close> and one of \<open>onError\<close>, then calls \<open>onReconnect\<close> once and
  returns; there is no sixth call. In any iteration, an attempt that succeeds installs
  the new connection in the slot and ends the loop, and an attempt that fails with a
  permanent error ends the loop after \<open>onError\<close>, without \<open>onReconnect\<close>.
\<close>

theorem reconnectLoop_conformance:
  "(reconnectConfig r = DefaultReconnectConfig \<and> \<not> ctxCancelled r
    \<and> (\<forall>i<5. \<not> closeCalled (env i) \<and> requestResult (env i) = Some (msg i)
              \<and> \<not> isPermanentError (Some (''failed to establish SSE connection: '' @ msg i)))
    \<longrightarrow> reconnectLoop r ps env =
     ([Sleep Second, CallRequestFn,
       CallOnError (''reconnect attempt 1 failed: failed to establish SSE connection: '' @ msg 0),
       Sleep (2 * Second), CallRequestFn,
       CallOnError (''reconnect attempt 2 failed: failed to establish SSE connection: '' @ msg 1),
       Sleep (4 * Second), CallRequestFn,
       CallOnError (''reconnect attempt 3 failed: failed to establish SSE connection: '' @ msg 2),
       Sleep (8 * Second), CallRequestFn,
       CallOnError (''reconnect attempt 4 failed: failed to establish SSE connection: '' @ msg 3),
       Sleep (16 * Second), CallRequestFn,
       CallOnError (''reconnect attempt 5 failed: failed to establish SSE connection: '' @ msg 4),
       CallOnReconnect], r))
   \<and> (\<not> ctxCancelled r \<and> \<not> closeCalled (envS attempt) \<and> requestResult (envS attempt) = None
    \<longrightarrow> reconnectIter ps envS (Suc left) attempt backoff r =
     ([Sleep backoff, CallRequestFn],
      r\<lparr>store := store r @ [\<lparr>params = ps, cancelCalled = False, bodyClosed = False,
                               readerReturned = False\<rparr>],
        conn := Some (length (store r))\<rparr>))
   \<and> (\<not> ctxCancelled r \<and> \<not> closeCalled (envP attempt)
      \<and> requestResult (envP attempt) = Some reason
      \<and> isPermanentError (Some (''failed to establish SSE connection: '' @ reason))
    \<longrightarrow> reconnectIter ps envP (Suc left) attempt backoff r =
     ([Sleep backoff, CallRequestFn,
       CallOnError (''permanent error, stopping reconnection: failed to establish SSE connection: ''
                    @ reason)],
      r))"
  using reconnectLoop_exhaustion [of r env msg ps]
    reconnectIter_success [of r envS attempt ps left backoff]
    reconnectIter_permanent [of r envP attempt reason ps left backoff]
  by blast

theorem reconnectLoop_conformance_witness:
  "reconnectLoop NewConnectionRegistry zeroParams upstreamUnavailable =
     ([Sleep Second, CallRequestFn,
       CallOnError ''reconnect attempt 1 failed: failed to establish SSE connection: unexpected status 503'',
       Sleep (2 * Second), CallRequestFn,
       CallOnError ''reconnect attempt 2 failed: failed to establish SSE connection: unexpected status 503'',
       Sleep (4 * Second), CallRequestFn,
       CallOnError ''reconnect attempt 3 failed: failed to establish SSE connection: unexpected status 503'',
       Sleep (8 * Second), CallRequestFn,
       CallOnError ''reconnect attempt 4 failed: failed to establish SSE connection: unexpected status 503'',
       Sleep (16 * Second), CallRequestFn,
       CallOnError ''reconnect attempt 5 failed: failed to establish SSE connection: unexpected status 503'',
       CallOnReconnect], NewConnectionRegistry)
   \<and> reconnectIter zeroParams upstreamAccepts (Suc 4) 0 Second NewConnectionRegistry =
     ([Sleep Second, CallRequestFn],
      NewConnectionRegistry
        \<lparr>store := [\<lparr>params = zeroParams, cancelCalled = False, bodyClosed = False,
                         readerReturned = False\<rparr>],
         conn := Some 0\<rparr>)
   \<and> reconnectIter zeroParams planNotSupported (Suc 4) 0 Second NewConnectionRegistry =
     ([Sleep Second, CallRequestFn,
       CallOnError ''permanent error, stopping reconnection: failed to establish SSE connection: event subscriptions are not available on your current plan''],
      NewConnectionRegistry)"
proof -
  have transient:
    "\<not> isPermanentError (Some ''failed to establish SSE connection: unexpected status 503'')"
    by code_simp
  have permanent:
    "isPermanentError (Some ''failed to establish SSE connection: event subscriptions are not available on your current plan'')"
    by code_simp
  show ?thesis
    using reconnectLoop_conformance
      [of NewConnectionRegistry upstreamUnavailable "\<lambda>i. ''unexpected status 503''"
          zeroParams upstreamAccepts 0 4 Second planNotSupported
          "''event subscriptions are not available on your current plan''"]
      transient permanent
    by (simp add: NewConnectionRegistry_def upstreamUnavailable_def upstreamAccepts_def
        planNotSupported_def del: reconnectIter.simps)
qed

text \<open>
  The claim as it was written does not hold of a run during which the registry is
  closed: below \<open>Close\<close> is called during the third wait. Both calls of \<open>requestFn\<close>
  fail with a transient error, and the loop returns after two attempts without
  calling \<open>onReconnect\<close>.
\<close>

theorem reconnectLoop_closed_counterexample:
  "\<not> isPermanentError (Some ''failed to establish SSE connection: unexpected status 503'')
   \<and> fst (reconnectLoop NewConnectionRegistry zeroParams closedDuringThirdWait) =
     [Sleep Second, CallRequestFn,
      CallOnError ''reconnect attempt 1 failed: failed to establish SSE connection: unexpected status 503'',
      Sleep (2 * Second), CallRequestFn,
      CallOnError ''reconnect attempt 2 failed: failed to establish SSE connection: unexpected status 503'']"
  by code_simp

section \<open>Properties of the managed-object writer\<close>

lemma map_of_rev_distinct: "distinct (map fst xs) \<Longrightarrow> map_of (rev xs) = map_of xs"
  by (rule map_of_inject_set [THEN iffD2]) (simp_all add: rev_map [symmetric] del: rev_map)

lemma map_of_foldl_update_if:
  "map_of (foldl (\<lambda>m (k, v). if P k then AList.update k v m else m) m0 xs) =
     map_of m0 ++ map_of (rev (filter (\<lambda>(k, v). P k) xs))"
proof (induction xs arbitrary: m0)
  case Nil
  then show ?case by simp
next
  case (Cons x xs)
  obtain k v where x: "x = (k, v)" by (cases x)
  show ?case
    unfolding x using Cons.IH [of "if P k then AList.update k v m0 else m0"]
    by (auto simp: update_conv' map_add_def fun_eq_iff split: option.splits)
qed

lemma map_of_foldl_update:
  "map_of (foldl (\<lambda>m (k, v). AList.update k v m) m0 xs) = map_of m0 ++ map_of (rev xs)"
  using map_of_foldl_update_if [of "\<lambda>k. True" m0 xs] by simp

lemma filter_keys_restrict:
  "map_of (filter (\<lambda>(k, v). P k) xs) = (\<lambda>k. if P k then map_of xs k else None)"
proof -
  have "filter (\<lambda>(k, v). P k) xs = filter (\<lambda>x. P (fst x)) xs"
    by (simp add: split_def)
  then show ?thesis by (auto simp: map_of_filter restrict_map_def)
qed

lemma map_of_kept:
  assumes "distinct (map fst xs)"
  shows "map_of (rev (filter (\<lambda>(k, v). P k) xs)) = (\<lambda>k. if P k then map_of xs k else None)"
proof -
  have "distinct (map fst (filter (\<lambda>(k, v). P k) xs))"
    using assms by (simp add: distinct_map_filter)
  then show ?thesis by (simp add: map_of_rev_distinct filter_keys_restrict)
qed

lemma keys_foldl_insert_if:
  "set (foldl (\<lambda>keys (k, v). if Q k then keys else List.insert k keys) ks xs) =
     set ks \<union> {k \<in> fst ` set xs. \<not> Q k}"
proof (induction xs arbitrary: ks)
  case Nil
  then show ?case by simp
next
  case (Cons x xs)
  obtain k v where x: "x = (k, v)" by (cases x)
  show ?case
    unfolding x using Cons.IH [of "if Q k then ks else List.insert k ks"]
    by auto
qed

lemma distinct_foldl_insert_if:
  "distinct ks \<Longrightarrow>
   distinct (foldl (\<lambda>keys (k, v). if Q k then keys else List.insert k keys) ks xs)"
proof (induction xs arbitrary: ks)
  case Nil
  then show ?case by simp
next
  case (Cons x xs)
  obtain k v where x: "x = (k, v)" by (cases x)
  have "distinct (if Q k then ks else List.insert k ks)" using Cons.prems by simp
  then show ?case unfolding x using Cons.IH by simp
qed

lemma set_annotationKeys:
  "set (annotationKeys annotations) = {k \<in> fst ` set annotations. \<not> isSystem k}"
  unfolding annotationKeys_def by (simp add: keys_foldl_insert_if)

lemma distinct_annotationKeys: "distinct (annotationKeys annotations)"
  unfolding annotationKeys_def by (rule distinct_foldl_insert_if) simp

lemma set_labelKeys: "set (labelKeys labels) = fst ` set labels"
  unfolding labelKeys_def
  using keys_foldl_insert_if [of "\<lambda>k. False" "[]" labels] by simp

lemma distinct_labelKeys: "distinct (labelKeys labels)"
  unfolding labelKeys_def
  using distinct_foldl_insert_if [of "[]" "\<lambda>k. False" labels] by simp

lemma formatManagedKeys_sort: "formatManagedKeys keys = Join (sort keys) '',''"
  by (cases keys) (simp_all add: formatManagedKeys_def)

lemma formatManagedKeys_sorted_set:
  "distinct keys \<Longrightarrow> formatManagedKeys keys = Join (sorted_list_of_set (set keys)) '',''"
  by (simp add: formatManagedKeys_sort sorted_list_of_set_sort_remdups distinct_remdups_id)

lemma marker_keys_distinct:
  "MANAGED_LABELS_ANNOTATION \<noteq> MANAGED_ANNOTATIONS_ANNOTATION"
  "SECRET_VERSION_ANNOTATION \<noteq> MANAGED_LABELS_ANNOTATION"
  "SECRET_VERSION_ANNOTATION \<noteq> MANAGED_ANNOTATIONS_ANNOTATION"
  by (simp_all add: MANAGED_LABELS_ANNOTATION_def MANAGED_ANNOTATIONS_ANNOTATION_def
      SECRET_VERSION_ANNOTATION_def)

lemma sync_newLabels:
  "snd (syncLabelsAndAnnotations cr existingAnnotations existingLabels) =
     foldl (\<lambda>m (k, v). AList.update k v m)
       (foldl (\<lambda>m (k, v).
           if k \<notin> set (parseManagedKeys (lookup existingAnnotations MANAGED_LABELS_ANNOTATION))
           then AList.update k v m else m) [] existingLabels)
       (Labels cr)"
  by (simp add: syncLabelsAndAnnotations_def Let_def)

lemma sync_managed_labels:
  "map_of (fst (syncLabelsAndAnnotations cr existingAnnotations existingLabels))
     MANAGED_LABELS_ANNOTATION = Some (formatManagedKeys (labelKeys (Labels cr)))"
  using marker_keys_distinct
  by (simp add: syncLabelsAndAnnotations_def Let_def update_conv')

lemma sync_managed_annotations:
  "map_of (fst (syncLabelsAndAnnotations cr existingAnnotations existingLabels))
     MANAGED_ANNOTATIONS_ANNOTATION = Some (formatManagedKeys (annotationKeys (Annotations cr)))"
  by (simp add: syncLabelsAndAnnotations_def Let_def update_conv')

text \<open>
  C5. Let \<open>E\<close> be the labels of the existing object, \<open>P\<close> the keys parsed from its
  \<open>managed-labels\<close> annotation and \<open>Lc\<close> the labels of the custom resource. The new
  labels are the entries of \<open>E\<close> whose key is not in \<open>P\<close>, overlaid with \<open>Lc\<close>; the
  \<open>managed-labels\<close> annotation becomes the keys of \<open>Lc\<close>, sorted and joined by commas. A
  key of \<open>P\<close> that \<open>Lc\<close> does not have is removed, and a key that is neither in \<open>P\<close> nor
  in \<open>Lc\<close> keeps what \<open>E\<close> has for it.
\<close>

theorem syncLabels_three_way:
  assumes "distinct (map fst existingLabels)" and "distinct (map fst (Labels cr))"
  shows
    "map_of (snd (syncLabelsAndAnnotations cr existingAnnotations existingLabels)) =
       (\<lambda>k. if k \<in> set (parseManagedKeys (lookup existingAnnotations MANAGED_LABELS_ANNOTATION))
            then None else map_of existingLabels k) ++ map_of (Labels cr)
     \<and> map_of (fst (syncLabelsAndAnnotations cr existingAnnotations existingLabels))
         MANAGED_LABELS_ANNOTATION =
       Some (Join (sorted_list_of_set (fst ` set (Labels cr))) '','')
     \<and> (k \<in> set (parseManagedKeys (lookup existingAnnotations MANAGED_LABELS_ANNOTATION))
        \<and> k \<notin> fst ` set (Labels cr) \<longrightarrow>
          map_of (snd (syncLabelsAndAnnotations cr existingAnnotations existingLabels)) k = None)
     \<and> (k \<notin> set (parseManagedKeys (lookup existingAnnotations MANAGED_LABELS_ANNOTATION))
        \<and> k \<notin> fst ` set (Labels cr) \<longrightarrow>
          map_of (snd (syncLabelsAndAnnotations cr existingAnnotations existingLabels)) k =
            map_of existingLabels k)"
proof -
  let ?P = "set (parseManagedKeys (lookup existingAnnotations MANAGED_LABELS_ANNOTATION))"
  have labels: "map_of (snd (syncLabelsAndAnnotations cr existingAnnotations existingLabels)) =
       (\<lambda>k. if k \<in> ?P then None else map_of existingLabels k) ++ map_of (Labels cr)"
  proof -
    have flip: "(\<lambda>k. if k \<notin> ?P then map_of existingLabels k else None) =
        (\<lambda>k. if k \<in> ?P then None else map_of existingLabels k)"
      by auto
    show ?thesis
      unfolding sync_newLabels
      by (simp add: map_of_foldl_update map_of_foldl_update_if
          map_of_rev_distinct [OF assms(2)] map_of_kept [OF assms(1)] flip)
  qed
  have tracking: "map_of (fst (syncLabelsAndAnnotations cr existingAnnotations existingLabels))
         MANAGED_LABELS_ANNOTATION =
       Some (Join (sorted_list_of_set (fst ` set (Labels cr))) '','')"
    using formatManagedKeys_sorted_set [OF distinct_labelKeys, of "Labels cr"]
    by (simp add: sync_managed_labels set_labelKeys)
  have absent: "map_of (Labels cr) k = None" if "k \<notin> fst ` set (Labels cr)"
    using that by (simp add: map_of_eq_None_iff)
  show ?thesis
    using tracking absent unfolding labels by (simp add: map_add_def)
qed

theorem syncLabels_three_way_witness:
  "map_of (snd (syncLabelsAndAnnotations
                  \<lparr>Labels = [(''team'', ''a''), (''tier'', ''gold'')], Annotations = []\<rparr>
                  [(MANAGED_LABELS_ANNOTATION, ''team,stage''), (MANAGED_ANNOTATIONS_ANNOTATION, [])]
                  [(''team'', ''a''), (''stage'', ''dev''), (''owner'', ''ops'')])) ''stage'' = None
   \<and> map_of (snd (syncLabelsAndAnnotations
                  \<lparr>Labels = [(''team'', ''a''), (''tier'', ''gold'')], Annotations = []\<rparr>
                  [(MANAGED_LABELS_ANNOTATION, ''team,stage''), (MANAGED_ANNOTATIONS_ANNOTATION, [])]
                  [(''team'', ''a''), (''stage'', ''dev''), (''owner'', ''ops'')])) ''owner''
       = Some ''ops''
   \<and> map_of (fst (syncLabelsAndAnnotations
                  \<lparr>Labels = [(''team'', ''a''), (''tier'', ''gold'')], Annotations = []\<rparr>
                  [(MANAGED_LABELS_ANNOTATION, ''team,stage''), (MANAGED_ANNOTATIONS_ANNOTATION, [])]
                  [(''team'', ''a''), (''stage'', ''dev''), (''owner'', ''ops'')]))
         MANAGED_LABELS_ANNOTATION = Some ''team,tier''"
proof -
  have P: "parseManagedKeys (lookup [(MANAGED_LABELS_ANNOTATION, ''team,stage''),
             (MANAGED_ANNOTATIONS_ANNOTATION, [])] MANAGED_LABELS_ANNOTATION) = [''stage'', ''team'']"
    by code_simp
  have srt: "sorted_list_of_set {''team'', ''tier''} = [''team'', ''tier'']"
    using sorted_list_of_set_sort_remdups [of "[''team'', ''tier'']"] by simp
  show ?thesis
    using syncLabels_three_way
      [of "[(''team'', ''a''), (''stage'', ''dev''), (''owner'', ''ops'')]"
          "\<lparr>Labels = [(''team'', ''a''), (''tier'', ''gold'')], Annotations = []\<rparr>"
          "[(MANAGED_LABELS_ANNOTATION, ''team,stage''), (MANAGED_ANNOTATIONS_ANNOTATION, [])]"
          "''stage''"]
      syncLabels_three_way
      [of "[(''team'', ''a''), (''stage'', ''dev''), (''owner'', ''ops'')]"
          "\<lparr>Labels = [(''team'', ''a''), (''tier'', ''gold'')], Annotations = []\<rparr>"
          "[(MANAGED_LABELS_ANNOTATION, ''team,stage''), (MANAGED_ANNOTATIONS_ANNOTATION, [])]"
          "''owner''"]
    by (simp add: P srt)
qed

subsection \<open>The tracking annotations\<close>

lemma create_unfold:
  "createInfisicalManagedKubeResource cr (Inr payload) ETag resourceType =
     (if resourceType = MANAGED_KUBE_RESOURCE_TYPE_SECRET then
        Inr \<lparr>Kind = MANAGED_KUBE_RESOURCE_TYPE_SECRET,
             Meta = \<lparr>Labels = foldl (\<lambda>m (k, v). AList.update k v m) [] (Labels cr),
                     Annotations =
                       AList.update SECRET_VERSION_ANNOTATION ETag
                         (AList.update MANAGED_ANNOTATIONS_ANNOTATION
                            (formatManagedKeys (annotationKeys (Annotations cr)))
                            (AList.update MANAGED_LABELS_ANNOTATION
                               (formatManagedKeys (labelKeys (Labels cr)))
                               (foldl (\<lambda>m (k, v). if isSystem k then m else AList.update k v m) []
                                  (Annotations cr))))\<rparr>,
             Payload = payload\<rparr>
      else if resourceType = MANAGED_KUBE_RESOURCE_TYPE_CONFIG_MAP then
        Inr \<lparr>Kind = MANAGED_KUBE_RESOURCE_TYPE_CONFIG_MAP,
             Meta = \<lparr>Labels = foldl (\<lambda>m (k, v). AList.update k v m) [] (Labels cr),
                     Annotations =
                       AList.update MANAGED_ANNOTATIONS_ANNOTATION
                         (formatManagedKeys (annotationKeys (Annotations cr)))
                         (AList.update MANAGED_LABELS_ANNOTATION
                            (formatManagedKeys (labelKeys (Labels cr)))
                            (foldl (\<lambda>m (k, v). if isSystem k then m else AList.update k v m) []
                               (Annotations cr)))\<rparr>,
             Payload = payload\<rparr>
      else Inl InvalidResourceType)"
  by (simp add: createInfisicalManagedKubeResource_def Let_def)

lemma create_tracking:
  assumes "createInfisicalManagedKubeResource cr (Inr payload) ETag resourceType = Inr obj"
  shows "map_of (Annotations (Meta obj)) MANAGED_LABELS_ANNOTATION =
           Some (formatManagedKeys (labelKeys (Labels cr)))"
    and "map_of (Annotations (Meta obj)) MANAGED_ANNOTATIONS_ANNOTATION =
           Some (formatManagedKeys (annotationKeys (Annotations cr)))"
  using assms marker_keys_distinct unfolding create_unfold
  by (auto simp: update_conv' split: if_splits)

lemma create_secret_version:
  "createInfisicalManagedKubeResource cr (Inr payload) ETag MANAGED_KUBE_RESOURCE_TYPE_SECRET
     = Inr obj \<Longrightarrow>
   map_of (Annotations (Meta obj)) SECRET_VERSION_ANNOTATION = Some ETag"
  unfolding create_unfold by (auto simp: update_conv')

lemma update_secret_tracking:
  assumes "updateInfisicalManagedKubeSecret cr old (Inr payload) ETag = Inr obj"
  shows "map_of (Annotations (Meta obj)) MANAGED_LABELS_ANNOTATION =
           Some (formatManagedKeys (labelKeys (Labels cr)))"
    and "map_of (Annotations (Meta obj)) MANAGED_ANNOTATIONS_ANNOTATION =
           Some (formatManagedKeys (annotationKeys (Annotations cr)))"
    and "map_of (Annotations (Meta obj)) SECRET_VERSION_ANNOTATION = Some ETag"
  using assms marker_keys_distinct
    sync_managed_labels [of cr "Annotations (Meta old)" "Labels (Meta old)"]
    sync_managed_annotations [of cr "Annotations (Meta old)" "Labels (Meta old)"]
  by (auto simp: updateInfisicalManagedKubeSecret_def update_conv' split: prod.splits)

lemma update_config_map_tracking:
  assumes "updateInfisicalManagedConfigMap cr old (Inr payload) ETag = Inr obj"
  shows "map_of (Annotations (Meta obj)) MANAGED_LABELS_ANNOTATION =
           Some (formatManagedKeys (labelKeys (Labels cr)))"
    and "map_of (Annotations (Meta obj)) MANAGED_ANNOTATIONS_ANNOTATION =
           Some (formatManagedKeys (annotationKeys (Annotations cr)))"
    and "map_of (Annotations (Meta obj)) SECRET_VERSION_ANNOTATION = Some ETag"
  using assms marker_keys_distinct
    sync_managed_labels [of cr "Annotations (Meta old)" "Labels (Meta old)"]
    sync_managed_annotations [of cr "Annotations (Meta old)" "Labels (Meta old)"]
  by (auto simp: updateInfisicalManagedConfigMap_def update_conv' split: prod.splits)

text \<open>
  C7. The three markers are on every object that the two update functions write and on
  every secret that is created (\<open>update_secret_tracking\<close>, \<open>update_config_map_tracking\<close>,
  \<open>create_tracking\<close>, \<open>create_secret_version\<close>). A config map that is created has the two
  tracking annotations only: \<open>createInfisicalManagedKubeResource\<close> sets the
  \<open>secret-version\<close> annotation in its branch for secrets and not in its branch for config
  maps. Below, the custom resource has no labels and no annotations, and the config map
  that is created carries no \<open>secret-version\<close>.
\<close>

theorem created_config_map_has_no_version:
  "createInfisicalManagedKubeResource \<lparr>Labels = [], Annotations = []\<rparr>
     (Inr [(''FOO'', ''1'')]) ''etag-1'' MANAGED_KUBE_RESOURCE_TYPE_CONFIG_MAP
   = Inr \<lparr>Kind = MANAGED_KUBE_RESOURCE_TYPE_CONFIG_MAP,
          Meta = \<lparr>Labels = [],
                  Annotations = [(MANAGED_LABELS_ANNOTATION, []),
                                 (MANAGED_ANNOTATIONS_ANNOTATION, [])]\<rparr>,
          Payload = [(''FOO'', ''1'')]\<rparr>
   \<and> map_of [(MANAGED_LABELS_ANNOTATION, []), (MANAGED_ANNOTATIONS_ANNOTATION, [])]
         SECRET_VERSION_ANNOTATION = None"
  by (simp add: create_unfold labelKeys_def annotationKeys_def formatManagedKeys_def
      MANAGED_LABELS_ANNOTATION_def MANAGED_ANNOTATIONS_ANNOTATION_def
      SECRET_VERSION_ANNOTATION_def)

lemma isSystem_not_tracked: "isSystem k \<Longrightarrow> k \<notin> set (annotationKeys annotations)"
  by (simp add: set_annotationKeys)

text \<open>
  C8. On the create path and on the update path, the \<open>managed-annotations\<close> annotation
  of the managed object is the sorted, comma-joined list of the annotation keys of the
  custom resource that do not begin with a system-reserved prefix, so no key with such
  a prefix is in that list. The \<open>managed-labels\<close> annotation is the sorted,
  comma-joined list of all label keys of the custom resource: labels are not filtered.
\<close>

theorem system_prefix_excluded_from_managed_annotations:
  "(createInfisicalManagedKubeResource cr (Inr payload) ETag resourceType = Inr obj \<longrightarrow>
      map_of (Annotations (Meta obj)) MANAGED_ANNOTATIONS_ANNOTATION =
        Some (Join (sorted_list_of_set {k \<in> fst ` set (Annotations cr). \<not> isSystem k}) '','')
      \<and> map_of (Annotations (Meta obj)) MANAGED_LABELS_ANNOTATION =
        Some (Join (sorted_list_of_set (fst ` set (Labels cr))) '',''))
   \<and> map_of (fst (syncLabelsAndAnnotations cr existingAnnotations existingLabels))
        MANAGED_ANNOTATIONS_ANNOTATION =
        Some (Join (sorted_list_of_set {k \<in> fst ` set (Annotations cr). \<not> isSystem k}) '','')
   \<and> map_of (fst (syncLabelsAndAnnotations cr existingAnnotations existingLabels))
        MANAGED_LABELS_ANNOTATION =
        Some (Join (sorted_list_of_set (fst ` set (Labels cr))) '','')
   \<and> (isSystem k \<longrightarrow>
        k \<notin> set (sorted_list_of_set {k \<in> fst ` set (Annotations cr). \<not> isSystem k}))"
  using create_tracking [of cr payload ETag resourceType obj]
    sync_managed_labels [of cr existingAnnotations existingLabels]
    sync_managed_annotations [of cr existingAnnotations existingLabels]
    formatManagedKeys_sorted_set [OF distinct_labelKeys, of "Labels cr"]
    formatManagedKeys_sorted_set [OF distinct_annotationKeys, of "Annotations cr"]
  by (simp add: set_labelKeys set_annotationKeys)

text \<open>
  The claim as it was written also covers the labels, and fails there: a label of the
  custom resource whose key begins with \<open>kubernetes.io/\<close> is listed in
  \<open>managed-labels\<close>, on the create path and on the update path.
\<close>

theorem system_label_tracked_counterexample:
  "isSystem ''kubernetes.io/name''
   \<and> createInfisicalManagedKubeResource
       \<lparr>Labels = [(''kubernetes.io/name'', ''web'')], Annotations = []\<rparr>
       (Inr []) ''etag-1'' MANAGED_KUBE_RESOURCE_TYPE_SECRET
     = Inr \<lparr>Kind = MANAGED_KUBE_RESOURCE_TYPE_SECRET,
            Meta = \<lparr>Labels = [(''kubernetes.io/name'', ''web'')],
                    Annotations = [(MANAGED_LABELS_ANNOTATION, ''kubernetes.io/name''),
                                   (MANAGED_ANNOTATIONS_ANNOTATION, []),
                                   (SECRET_VERSION_ANNOTATION, ''etag-1'')]\<rparr>,
            Payload = []\<rparr>
   \<and> fst (syncLabelsAndAnnotations
            \<lparr>Labels = [(''kubernetes.io/name'', ''web'')], Annotations = []\<rparr> [] [])
     = [(MANAGED_LABELS_ANNOTATION, ''kubernetes.io/name''),
        (MANAGED_ANNOTATIONS_ANNOTATION, [])]"
  by code_simp

theorem system_prefix_excluded_from_managed_annotations_witness:
  "isSystem ''helm.sh/hook''
   \<and> map_of (Annotations (Meta
        \<lparr>Kind = MANAGED_KUBE_RESOURCE_TYPE_SECRET,
         Meta = \<lparr>Labels = [(''team'', ''a'')],
                 Annotations = [(''owner'', ''ops''),
                                (MANAGED_LABELS_ANNOTATION, ''team''),
                                (MANAGED_ANNOTATIONS_ANNOTATION, ''owner''),
                                (SECRET_VERSION_ANNOTATION, ''etag-1'')]\<rparr>,
         Payload = []\<rparr>)) MANAGED_ANNOTATIONS_ANNOTATION
       = Some (Join (sorted_list_of_set
                 {k \<in> fst ` set [(''helm.sh/hook'', ''pre''), (''owner'', ''ops'')]. \<not> isSystem k})
               '','')
   \<and> ''helm.sh/hook'' \<notin> set (sorted_list_of_set
         {k \<in> fst ` set [(''helm.sh/hook'', ''pre''), (''owner'', ''ops'')]. \<not> isSystem k})"
proof -
  have sys: "isSystem ''helm.sh/hook''" by code_simp
  have run: "createInfisicalManagedKubeResource
       \<lparr>Labels = [(''team'', ''a'')],
        Annotations = [(''helm.sh/hook'', ''pre''), (''owner'', ''ops'')]\<rparr>
       (Inr []) ''etag-1'' MANAGED_KUBE_RESOURCE_TYPE_SECRET
     = Inr \<lparr>Kind = MANAGED_KUBE_RESOURCE_TYPE_SECRET,
            Meta = \<lparr>Labels = [(''team'', ''a'')],
                    Annotations = [(''owner'', ''ops''),
                                   (MANAGED_LABELS_ANNOTATION, ''team''),
                                   (MANAGED_ANNOTATIONS_ANNOTATION, ''owner''),
                                   (SECRET_VERSION_ANNOTATION, ''etag-1'')]\<rparr>,
            Payload = []\<rparr>"
    by code_simp
  show ?thesis
    using system_prefix_excluded_from_managed_annotations
      [of "\<lparr>Labels = [(''team'', ''a'')],
            Annotations = [(''helm.sh/hook'', ''pre''), (''owner'', ''ops'')]\<rparr>"
          "[]" "''etag-1''" MANAGED_KUBE_RESOURCE_TYPE_SECRET
          "\<lparr>Kind = MANAGED_KUBE_RESOURCE_TYPE_SECRET,
            Meta = \<lparr>Labels = [(''team'', ''a'')],
                    Annotations = [(''owner'', ''ops''),
                                   (MANAGED_LABELS_ANNOTATION, ''team''),
                                   (MANAGED_ANNOTATIONS_ANNOTATION, ''owner''),
                                   (SECRET_VERSION_ANNOTATION, ''etag-1'')]\<rparr>,
            Payload = []\<rparr>"
          "[]" "[]" "''helm.sh/hook''"]
      sys run
    by simp
qed

subsection \<open>The etag\<close>










end
